theory Spec2Isabelle
  imports Complex_Main "HOL-Library.Word" "HOL-Library.Monad_Syntax"
begin

section \<open>Numeric model\<close>

text \<open>
  A value of the C++ types \<open>float\<close>, \<open>double\<close> and \<open>ai_real\<close> (which is \<open>float\<close>) is
  the real number it stands for. Every arithmetic operation of the keyframe evaluation,
  the resampling and the quantization, and of the library's vector and quaternion
  operators, is rounded once, to the type in which C++ carries it out: \<open>to_double\<close> and
  \<open>to_float\<close> round to the nearest value of the binary64 and binary32 formats, ties to
  the even significand, with gradual underflow. There is no infinity and no NaN: a
  result beyond the largest finite value is outside the model. The product of 4x4
  matrices in the hierarchy resolution alone is taken over the real numbers: what is
  proved of it is which matrices are multiplied and in which order. Every comparison,
  branch, index and loop of the source is kept as written. An operation whose C++
  behaviour is undefined (an array read out of range, a conversion of a floating-point
  value to an integer type that cannot hold it) or that throws is the value \<open>None\<close>.
\<close>

text \<open>The nearest integer, a tie going to the even one.\<close>

definition round_half_even :: "real \<Rightarrow> int" where
  "round_half_even x =
     (let f = \<lfloor>x\<rfloor>; d = x - of_int f
      in if d < 1 / 2 then f else if 1 / 2 < d then f + 1 else if even f then f else f + 1)"

text \<open>
  Rounding to a binary format of precision \<open>p\<close> bits and least normal exponent \<open>emin\<close>:
  the unit in the last place of \<open>x\<close> is \<open>2 ^ (e - p + 1)\<close> for the exponent \<open>e\<close> of
  \<open>x\<close>, not below \<open>emin\<close>, and \<open>x\<close> is rounded to the nearest multiple of that unit.
\<close>

definition round_ieee :: "nat \<Rightarrow> int \<Rightarrow> real \<Rightarrow> real" where
  "round_ieee p emin x =
     (if x = 0 then 0
      else let e = max emin \<lfloor>log 2 \<bar>x\<bar>\<rfloor>; u = 2 powr of_int (e - int p + 1)
           in of_int (round_half_even (x / u)) * u)"

definition to_double :: "real \<Rightarrow> real" where
  "to_double = round_ieee 53 (- 1022)"

definition to_float :: "real \<Rightarrow> real" where
  "to_float = round_ieee 24 (- 126)"

text \<open>Truncation towards zero, as a C++ conversion from floating point to an integer does.\<close>

definition trunc_real :: "real \<Rightarrow> int" where
  "trunc_real r = (if 0 \<le> r then \<lfloor>r\<rfloor> else \<lceil>r\<rceil>)"

text \<open>\<open>(int) d\<close>: undefined when the truncated value is not an \<open>int\<close> (32 bits).\<close>

definition int_of_double :: "real \<Rightarrow> int option" where
  "int_of_double d =
     (let t = trunc_real d in if - (2 ^ 31) \<le> t \<and> t < 2 ^ 31 then Some t else None)"

text \<open>\<open>(short) f\<close>: undefined when the truncated value is not a \<open>short\<close> (16 bits).\<close>

definition short_of_float :: "real \<Rightarrow> 16 word option" where
  "short_of_float f =
     (let t = trunc_real f in if - 32768 \<le> t \<and> t \<le> 32767 then Some (word_of_int t) else None)"

text \<open>\<open>std::numeric_limits<short>::max()\<close>\<close>

definition short_max :: real where
  "short_max = 32767"

section \<open>Vectors and quaternions of the scene library\<close>

text \<open>
  \<open>aiVector3D\<close> and \<open>aiQuaternion\<close> are types of the scene-import library. Their
  default constructors give the zero vector and the identity rotation \<open>(w = 1)\<close>; the
  operators are component-wise, the quaternion product is Hamilton's, each sum and
  product of it taken from left to right, and \<open>Rotate\<close> conjugates the vector by the
  quaternion. Their arithmetic is in \<open>float\<close>; a negation is exact.
\<close>

datatype aiVector3D = Vec3 (vx: real) (vy: real) (vz: real)

datatype aiQuaternion = Quat (qw: real) (qx: real) (qy: real) (qz: real)

definition aiVector3D_default :: aiVector3D where
  "aiVector3D_default = Vec3 0 0 0"

definition aiQuaternion_default :: aiQuaternion where
  "aiQuaternion_default = Quat 1 0 0 0"

fun vadd :: "aiVector3D \<Rightarrow> aiVector3D \<Rightarrow> aiVector3D" where
  "vadd (Vec3 a b c) (Vec3 d e f) = Vec3 (to_float (a + d)) (to_float (b + e)) (to_float (c + f))"

fun vsub :: "aiVector3D \<Rightarrow> aiVector3D \<Rightarrow> aiVector3D" where
  "vsub (Vec3 a b c) (Vec3 d e f) = Vec3 (to_float (a - d)) (to_float (b - e)) (to_float (c - f))"

fun vscale :: "aiVector3D \<Rightarrow> real \<Rightarrow> aiVector3D" where
  "vscale (Vec3 a b c) s = Vec3 (to_float (a * s)) (to_float (b * s)) (to_float (c * s))"

fun qmul :: "aiQuaternion \<Rightarrow> aiQuaternion \<Rightarrow> aiQuaternion" where
  "qmul (Quat w x y z) (Quat tw tx ty tz) =
     Quat (to_float (to_float (to_float (to_float (w * tw) - to_float (x * tx))
                        - to_float (y * ty)) - to_float (z * tz)))
          (to_float (to_float (to_float (to_float (w * tx) + to_float (x * tw))
                        + to_float (y * tz)) - to_float (z * ty)))
          (to_float (to_float (to_float (to_float (w * ty) + to_float (y * tw))
                        + to_float (z * tx)) - to_float (x * tz)))
          (to_float (to_float (to_float (to_float (w * tz) + to_float (z * tw))
                        + to_float (x * ty)) - to_float (y * tx)))"

fun qconj :: "aiQuaternion \<Rightarrow> aiQuaternion" where
  "qconj (Quat w x y z) = Quat w (- x) (- y) (- z)"

definition Rotate :: "aiQuaternion \<Rightarrow> aiVector3D \<Rightarrow> aiVector3D" where
  "Rotate q v =
     (let r = qmul (qmul q (Quat 0 (vx v) (vy v) (vz v))) (qconj q)
      in Vec3 (qx r) (qy r) (qz r))"

section \<open>Keyframe evaluation\<close>

text \<open>\<open>aiVectorKey\<close> and \<open>aiQuatKey\<close>: a time and a value.\<close>

record 'a key =
  mTime :: real
  mValue :: 'a

text \<open>\<open>keys[i]\<close> on a C array: reading outside the array is undefined.\<close>

definition at_index :: "'a list \<Rightarrow> nat \<Rightarrow> 'a option" where
  "at_index xs i = (if i < length xs then Some (xs ! i) else None)"

text \<open>
  \<open>findStartValue\<close>: the loop runs \<open>startValue\<close> from its current value up to
  \<open>keyCount\<close>; the result is the final \<open>startValue\<close> and \<open>lerp\<close> (which keeps the
  caller's value when no key is found). The times and \<open>lerp\<close> are \<open>double\<close>. The
  two key times of the division are distinct, one before the query time and one not,
  and the difference of two distinct doubles does not round to zero
  (\<open>double_difference_nonzero\<close>): the divisor is not zero.
\<close>

function findStartValue_from ::
  "'a key list \<Rightarrow> nat \<Rightarrow> real \<Rightarrow> nat \<Rightarrow> real \<Rightarrow> (nat \<times> real) option" where
  "findStartValue_from keys keyCount at' startValue lerp =
     (if startValue < keyCount then
        do {
          k \<leftarrow> at_index keys startValue;
          if mTime k \<ge> at' then
            (if startValue = 0 then Some (0, 0)
             else do {
               hi \<leftarrow> at_index keys (startValue - 1 + 1);
               lo \<leftarrow> at_index keys (startValue - 1);
               let deltaTime = to_double (mTime hi - mTime lo);
               if deltaTime = 1 then Some (startValue - 1, 0)
               else Some (startValue - 1, to_double (to_double (at' - mTime lo) / deltaTime))
             })
          else findStartValue_from keys keyCount at' (Suc startValue) lerp
        }
      else Some (startValue, lerp))"
  by pat_completeness auto
termination
  by (relation "measure (\<lambda>(keys, keyCount, at', startValue, lerp). keyCount - startValue)") auto

declare findStartValue_from.simps [simp del]

definition findStartValue :: "'a key list \<Rightarrow> nat \<Rightarrow> real \<Rightarrow> real \<Rightarrow> (nat \<times> real) option" where
  "findStartValue keys keyCount at' lerp = findStartValue_from keys keyCount at' 0 lerp"

definition evaluateVectorAt :: "aiVector3D key list \<Rightarrow> nat \<Rightarrow> real \<Rightarrow> aiVector3D option" where
  "evaluateVectorAt keys keyCount at' =
     (if keyCount = 0 then Some aiVector3D_default
      else if keyCount = 1 then map_option mValue (at_index keys 0)
      else do {
        (startValue, lerp) \<leftarrow> findStartValue keys keyCount at' 0;
        if startValue = keyCount then map_option mValue (at_index keys (keyCount - 1))
        else do {
          from \<leftarrow> at_index keys startValue;
          to \<leftarrow> at_index keys (startValue + 1);
          Some (vadd (vscale (vsub (mValue to) (mValue from)) (to_float lerp)) (mValue from))
        }
      })"

text \<open>
  \<open>aiQuaternion::Interpolate\<close> (spherical interpolation) is the library's; it is a
  parameter of the model, called as \<open>Interpolate from to factor\<close>. Its factor is a
  \<open>float\<close>, so both evaluations convert \<open>lerp\<close> to \<open>float\<close>.
\<close>

definition evaluateQuaternionAt ::
  "(aiQuaternion \<Rightarrow> aiQuaternion \<Rightarrow> real \<Rightarrow> aiQuaternion) \<Rightarrow>
   aiQuaternion key list \<Rightarrow> nat \<Rightarrow> real \<Rightarrow> aiQuaternion option" where
  "evaluateQuaternionAt Interpolate keys keyCount at' =
     (if keyCount = 0 then Some aiQuaternion_default
      else if keyCount = 1 then map_option mValue (at_index keys 0)
      else do {
        (startValue, lerp) \<leftarrow> findStartValue keys keyCount at' 0;
        if startValue = keyCount then map_option mValue (at_index keys (keyCount - 1))
        else do {
          from \<leftarrow> at_index keys startValue;
          to \<leftarrow> at_index keys (startValue + 1);
          Some (Interpolate (mValue from) (mValue to) (to_float lerp))
        }
      })"

section \<open>Resampling a clip (generateanimationV2)\<close>

text \<open>
  The scene library's \<open>aiNodeAnim\<close> (a channel) and \<open>aiAnimation\<close> (a clip). The key
  counts are fields of their own, as in the library; \<open>mNumChannels\<close> is the length of
  \<open>mChannels\<close>.
\<close>

record aiNodeAnim =
  mNodeName :: string
  mNumPositionKeys :: nat
  mPositionKeys :: "aiVector3D key list"
  mNumRotationKeys :: nat
  mRotationKeys :: "aiQuaternion key list"

record aiAnimation =
  mName :: string
  mDuration :: real
  mTicksPerSecond :: real
  mChannels :: "aiNodeAnim list"

text \<open>
  The fields of \<open>DisplayListSettings\<close> that the animation code reads. The target rate is
  an unsigned integer (it is passed on as an \<open>unsigned short\<close>).
\<close>

record DisplayListSettings =
  mTicksPerSecond :: nat
  mFixedPointScale :: real
  mModelScale :: real
  mRotateModel :: aiQuaternion

text \<open>
  A \<open>Bone\<close> of the \<open>BoneHierarchy\<close>: its name and its parent (\<open>None\<close> for the null
  pointer, otherwise the parent's index). The hierarchy is the list of its bones:
  \<open>GetBoneCount\<close> is its length and \<open>BoneByIndex\<close> reads it.
\<close>

record Bone =
  GetName :: string
  GetParent :: "nat option"

record FrameData =
  position :: aiVector3D
  rotation :: aiQuaternion

text \<open>A value-initialised \<open>FrameData\<close>: both members are default-constructed.\<close>

definition FrameData_default :: FrameData where
  "FrameData_default = \<lparr>position = aiVector3D_default, rotation = aiQuaternion_default\<rparr>"

text \<open>A loop over a list whose body may fail: the first failure ends the run.\<close>

fun for_each :: "('a \<Rightarrow> 's \<Rightarrow> 's option) \<Rightarrow> 'a list \<Rightarrow> 's \<Rightarrow> 's option" where
  "for_each body [] s = Some s"
| "for_each body (x # xs) s = (case body x s of None \<Rightarrow> None | Some s' \<Rightarrow> for_each body xs s')"

text \<open>
  Line 177: \<open>int nFrames = ceil(mDuration * settings.mTicksPerSecond / animation.mTicksPerSecond)\<close>.
  The product and the quotient are rounded to \<open>double\<close>; the ceiling of a double is
  exact. A source rate of zero makes the quotient infinite or NaN, whose conversion to
  \<open>int\<close> is undefined.
\<close>

definition compute_nFrames :: "aiAnimation \<Rightarrow> DisplayListSettings \<Rightarrow> int option" where
  "compute_nFrames animation settings =
     (if aiAnimation.mTicksPerSecond animation = 0 then None
      else int_of_double (of_int \<lceil>to_double
              (to_double (mDuration animation
                            * real (DisplayListSettings.mTicksPerSecond settings))
               / aiAnimation.mTicksPerSecond animation)\<rceil>))"

text \<open>
  Lines 179-183: \<open>nFrames\<close> rows of \<open>GetBoneCount()\<close> value-initialised entries. A negative
  \<open>nFrames\<close> converts to a size beyond \<open>max_size\<close> and the constructor throws.
\<close>

definition init_allFrameData :: "int \<Rightarrow> nat \<Rightarrow> FrameData list list option" where
  "init_allFrameData nFrames boneCount =
     (if nFrames < 0 then None
      else Some (replicate (nat nFrames) (replicate boneCount FrameData_default)))"

text \<open>Lines 188-196: the first channel whose node name is the bone's name.\<close>

definition find_channel :: "aiAnimation \<Rightarrow> Bone \<Rightarrow> aiNodeAnim option" where
  "find_channel animation bone =
     find (\<lambda>channel. GetName bone = mNodeName channel) (mChannels animation)"

text \<open>
  Lines 204-213: the sample of one bone at one output frame, before the fixed-point
  scale. When \<open>settings.mTicksPerSecond\<close> is zero \<open>nFrames\<close> is zero too, so the division
  is never evaluated.
\<close>

definition sample_bone ::
  "(aiQuaternion \<Rightarrow> aiQuaternion \<Rightarrow> real \<Rightarrow> aiQuaternion) \<Rightarrow>
   aiAnimation \<Rightarrow> DisplayListSettings \<Rightarrow> Bone \<Rightarrow> aiNodeAnim \<Rightarrow> nat \<Rightarrow>
   (aiVector3D \<times> aiQuaternion) option" where
  "sample_bone Interpolate animation settings bone nodeAnim frame =
     do {
       let at' = to_double (to_double (real frame * aiAnimation.mTicksPerSecond animation)
                   / real (DisplayListSettings.mTicksPerSecond settings));
       origin \<leftarrow> evaluateVectorAt (mPositionKeys nodeAnim) (mNumPositionKeys nodeAnim) at';
       rotation \<leftarrow> evaluateQuaternionAt Interpolate (mRotationKeys nodeAnim) (mNumRotationKeys nodeAnim) at';
       if GetParent bone = None then
         (let constRot = mRotateModel settings
          in Some (vscale (Rotate constRot origin) (mModelScale settings), qmul constRot rotation))
       else Some (origin, rotation)
     }"

text \<open>Lines 215-216: \<open>allFrameData[frame][boneIndex]\<close> is assigned; both indices are checked.\<close>

definition store_frame ::
  "FrameData list list \<Rightarrow> nat \<Rightarrow> nat \<Rightarrow> FrameData \<Rightarrow> FrameData list list option" where
  "store_frame allFrameData frame boneIndex fd =
     (if frame < length allFrameData \<and> boneIndex < length (allFrameData ! frame)
      then Some (allFrameData[frame := (allFrameData ! frame)[boneIndex := fd]])
      else None)"

text \<open>Lines 203-218: the frame loop of one bone that has a channel.\<close>

definition populate_channel ::
  "(aiQuaternion \<Rightarrow> aiQuaternion \<Rightarrow> real \<Rightarrow> aiQuaternion) \<Rightarrow>
   aiAnimation \<Rightarrow> DisplayListSettings \<Rightarrow> Bone \<Rightarrow> aiNodeAnim \<Rightarrow> nat \<Rightarrow> nat \<Rightarrow>
   FrameData list list \<Rightarrow> FrameData list list option" where
  "populate_channel Interpolate animation settings bone nodeAnim boneIndex nFrames allFrameData =
     for_each
       (\<lambda>frame frames.
          do {
            (origin, rotation) \<leftarrow> sample_bone Interpolate animation settings bone nodeAnim frame;
            store_frame frames frame boneIndex
              \<lparr>position = vscale origin (mFixedPointScale settings), rotation = rotation\<rparr>
          })
       [0..<nFrames] allFrameData"

text \<open>Lines 185-219: the loop over the bones; a bone without a channel is skipped.\<close>

definition populate_bone ::
  "(aiQuaternion \<Rightarrow> aiQuaternion \<Rightarrow> real \<Rightarrow> aiQuaternion) \<Rightarrow>
   aiAnimation \<Rightarrow> Bone list \<Rightarrow> DisplayListSettings \<Rightarrow> nat \<Rightarrow> nat \<Rightarrow>
   FrameData list list \<Rightarrow> FrameData list list option" where
  "populate_bone Interpolate animation bones settings nFrames boneIndex allFrameData =
     do {
       bone \<leftarrow> at_index bones boneIndex;
       case find_channel animation bone of
         None \<Rightarrow> Some allFrameData
       | Some nodeAnim \<Rightarrow>
           populate_channel Interpolate animation settings bone nodeAnim boneIndex nFrames allFrameData
     }"

text \<open>Lines 179-219: the resampled, not yet quantized, frames of the clip.\<close>

definition populate_allFrameData ::
  "(aiQuaternion \<Rightarrow> aiQuaternion \<Rightarrow> real \<Rightarrow> aiQuaternion) \<Rightarrow>
   aiAnimation \<Rightarrow> Bone list \<Rightarrow> DisplayListSettings \<Rightarrow> int \<Rightarrow> FrameData list list option" where
  "populate_allFrameData Interpolate animation bones settings nFrames =
     do {
       allFrameData \<leftarrow> init_allFrameData nFrames (length bones);
       for_each (populate_bone Interpolate animation bones settings (nat nFrames))
         [0..<length bones] allFrameData
     }"

text \<open>
  Lines 225-245: one \<open>SKAnimationBoneFrame\<close>, the three position shorts and the three
  rotation shorts.
\<close>

record SKAnimationBoneFrame =
  posData :: "16 word list"
  rotData :: "16 word list"

definition quantize_position :: "aiVector3D \<Rightarrow> 16 word list option" where
  "quantize_position p =
     do {
       a \<leftarrow> short_of_float (vx p);
       b \<leftarrow> short_of_float (vy p);
       c \<leftarrow> short_of_float (vz p);
       Some [a, b, c]
     }"

definition quantize_rotation :: "aiQuaternion \<Rightarrow> 16 word list option" where
  "quantize_rotation q =
     (if qw q < 0 then
        do {
          a \<leftarrow> short_of_float (to_float (- qx q * short_max));
          b \<leftarrow> short_of_float (to_float (- qy q * short_max));
          c \<leftarrow> short_of_float (to_float (- qz q * short_max));
          Some [a, b, c]
        }
      else
        do {
          a \<leftarrow> short_of_float (to_float (qx q * short_max));
          b \<leftarrow> short_of_float (to_float (qy q * short_max));
          c \<leftarrow> short_of_float (to_float (qz q * short_max));
          Some [a, b, c]
        })"

definition pack_frame :: "FrameData \<Rightarrow> SKAnimationBoneFrame option" where
  "pack_frame frameBone =
     do {
       pos \<leftarrow> quantize_position (position frameBone);
       rot \<leftarrow> quantize_rotation (rotation frameBone);
       Some \<lparr>posData = pos, rotData = rot\<rparr>
     }"

text \<open>Lines 223-247: frame by frame, and bone by bone within a frame.\<close>

definition pack_frames :: "FrameData list list \<Rightarrow> SKAnimationBoneFrame list option" where
  "pack_frames allFrameData = those (map pack_frame (concat allFrameData))"

text \<open>
  What \<open>generateanimationV2\<close> hands to the file definition: the frame data under the
  name \<open>mName + "_data"\<close> and the \<open>SKAnimationClip\<close> record under \<open>mName + "_clip"\<close>
  (its reference to the frame data is the name the file definition returns).
\<close>

record SKAnimationClip =
  dataName :: string
  frames :: "SKAnimationBoneFrame list"
  clipName :: string
  nFrames :: int
  nBones :: nat
  ticksPerSecond :: nat

definition generateanimationV2 ::
  "(aiQuaternion \<Rightarrow> aiQuaternion \<Rightarrow> real \<Rightarrow> aiQuaternion) \<Rightarrow>
   aiAnimation \<Rightarrow> Bone list \<Rightarrow> DisplayListSettings \<Rightarrow> SKAnimationClip option" where
  "generateanimationV2 Interpolate animation bones settings =
     do {
       nFrames \<leftarrow> compute_nFrames animation settings;
       allFrameData \<leftarrow> populate_allFrameData Interpolate animation bones settings nFrames;
       packed \<leftarrow> pack_frames allFrameData;
       Some \<lparr>dataName = aiAnimation.mName animation @ ''_data'',
             frames = packed,
             clipName = aiAnimation.mName animation @ ''_clip'',
             nFrames = nFrames,
             nBones = length bones,
             ticksPerSecond = DisplayListSettings.mTicksPerSecond settings\<rparr>
     }"

section \<open>The scene and its node tree\<close>

text \<open>
  \<open>aiMatrix4x4\<close>: four rows of four entries, with the library's row-by-column product.
  The default constructor gives the identity. \<open>uniform_scale_matrix s\<close> is the value of
  the library's constructor \<open>aiMatrix4x4(scaling, rotation, position)\<close> at the scaling
  \<open>(s, s, s)\<close>, the identity rotation and the zero position.
\<close>

datatype vec4 = Vec4 real real real real

datatype aiMatrix4x4 = Mat4 vec4 vec4 vec4 vec4

fun dot4 :: "vec4 \<Rightarrow> vec4 \<Rightarrow> real" where
  "dot4 (Vec4 a b c d) (Vec4 e f g h) = a * e + b * f + c * g + d * h"

fun columns :: "aiMatrix4x4 \<Rightarrow> vec4 list" where
  "columns (Mat4 (Vec4 a1 a2 a3 a4) (Vec4 b1 b2 b3 b4) (Vec4 c1 c2 c3 c4) (Vec4 d1 d2 d3 d4)) =
     [Vec4 a1 b1 c1 d1, Vec4 a2 b2 c2 d2, Vec4 a3 b3 c3 d3, Vec4 a4 b4 c4 d4]"

definition row_times :: "vec4 \<Rightarrow> aiMatrix4x4 \<Rightarrow> vec4" where
  "row_times r m =
     (case columns m of
        [k1, k2, k3, k4] \<Rightarrow> Vec4 (dot4 r k1) (dot4 r k2) (dot4 r k3) (dot4 r k4)
      | _ \<Rightarrow> r)"

fun mat_mul :: "aiMatrix4x4 \<Rightarrow> aiMatrix4x4 \<Rightarrow> aiMatrix4x4" where
  "mat_mul (Mat4 a b c d) m = Mat4 (row_times a m) (row_times b m) (row_times c m) (row_times d m)"

definition aiMatrix4x4_default :: aiMatrix4x4 where
  "aiMatrix4x4_default = Mat4 (Vec4 1 0 0 0) (Vec4 0 1 0 0) (Vec4 0 0 1 0) (Vec4 0 0 0 1)"

definition uniform_scale_matrix :: "real \<Rightarrow> aiMatrix4x4" where
  "uniform_scale_matrix s = Mat4 (Vec4 s 0 0 0) (Vec4 0 s 0 0) (Vec4 0 0 s 0) (Vec4 0 0 0 1)"

text \<open>
  An \<open>aiNode\<close> with the fields the code reads. The tree is a value; a pointer to a node
  of the scene is the path of child indices that leads to it from the root, so
  \<open>mParent\<close> drops the last index and is null at the root.
\<close>

datatype aiNode =
  Node (mName: string) (mTransformation: aiMatrix4x4) (mMeshes: "nat list") (mChildren: "aiNode list")

type_synonym node_ptr = "nat list"

fun node_at :: "aiNode \<Rightarrow> node_ptr \<Rightarrow> aiNode option" where
  "node_at n [] = Some n"
| "node_at n (i # p) =
     (if i < length (mChildren n) then node_at (mChildren n ! i) p else None)"

definition mParent :: "node_ptr \<Rightarrow> node_ptr option" where
  "mParent p = (if p = [] then None else Some (butlast p))"

text \<open>An \<open>aiMesh\<close>: the names of its bones. An \<open>aiScene\<close> with a root node.\<close>

record aiMesh =
  mBones :: "string list"

record aiScene =
  mRootNode :: aiNode
  mMeshes :: "aiMesh list"
  mAnimations :: "aiAnimation list"

text \<open>
  Modelled from the spec: \<open>forEachNode\<close>, which is defined in another file of the
  repository.
  It is the single depth-first traversal of the tree from the root: the callback runs on
  a node and then on each of its children's subtrees, in order. The result is the
  sequence of nodes on which the callback runs.
\<close>

fun forEachNode :: "node_ptr \<Rightarrow> aiNode \<Rightarrow> node_ptr list"
  and forEachChild :: "node_ptr \<Rightarrow> nat \<Rightarrow> aiNode list \<Rightarrow> node_ptr list" where
  "forEachNode p (Node name t ms cs) = p # forEachChild p 0 cs"
| "forEachChild p i [] = []"
| "forEachChild p i (c # cs) = forEachNode (p @ [i]) c @ forEachChild p (Suc i) cs"

section \<open>Hierarchy resolution (findNodesForWithAnimation)\<close>

record AnimationNodeInfo =
  node :: node_ptr
  parent :: "node_ptr option"
  relativeTransform :: aiMatrix4x4

text \<open>
  Lines 11-33: the names of the channels of every animation and of the bones of every
  mesh of a used node. Reading \<open>scene->mMeshes\<close> outside the array is undefined.
\<close>

definition animatedNodeNames :: "aiScene \<Rightarrow> aiNode list \<Rightarrow> string set option" where
  "animatedNodeNames scene usedNodes =
     do {
       usedMeshes \<leftarrow> those (map (at_index (aiScene.mMeshes scene))
                              (concat (map aiNode.mMeshes usedNodes)));
       Some (set (concat (map (map mNodeName \<circ> mChannels) (mAnimations scene)))
             \<union> set (concat (map mBones usedMeshes)))
     }"

text \<open>
  \<open>std::set<aiNode*>\<close> keeps its elements in the order of their addresses. \<open>addr\<close>
  gives the address of each node; the set is the list of its elements in that order.
\<close>

definition ptr_set_insert :: "(node_ptr \<Rightarrow> nat) \<Rightarrow> node_ptr \<Rightarrow> node_ptr list \<Rightarrow> node_ptr list" where
  "ptr_set_insert addr p s = (if p \<in> set s then s else insort_key addr p s)"

text \<open>
  \<open>std::map::insert\<close> keeps an entry that is already there; \<open>size()\<close> is the number
  of entries. \<open>nodeOrder[n]\<close> reads the entry (and would make one with value 0).
\<close>

definition nodeOrder_insert :: "node_ptr \<Rightarrow> (node_ptr \<times> nat) list \<Rightarrow> (node_ptr \<times> nat) list" where
  "nodeOrder_insert p m = (if map_of m p = None then m @ [(p, length m)] else m)"

definition nodeOrder_lookup :: "(node_ptr \<times> nat) list \<Rightarrow> node_ptr \<Rightarrow> nat" where
  "nodeOrder_lookup m p = (case map_of m p of None \<Rightarrow> 0 | Some i \<Rightarrow> i)"

text \<open>Lines 38-44: the callback of the traversal, on the pair of the two containers.\<close>

definition visit_node ::
  "(node_ptr \<Rightarrow> nat) \<Rightarrow> aiNode \<Rightarrow> string set \<Rightarrow> node_ptr \<Rightarrow>
   node_ptr list \<times> (node_ptr \<times> nat) list \<Rightarrow> (node_ptr list \<times> (node_ptr \<times> nat) list) option" where
  "visit_node addr rootNode names p st =
     do {
       n \<leftarrow> node_at rootNode p;
       Some (if aiNode.mName n \<in> names then ptr_set_insert addr p (fst st) else fst st,
             nodeOrder_insert p (snd st))
     }"

text \<open>
  Lines 53-57: the walk from a node up to the first ancestor in the set, or to the
  root. The result is the last \<open>currentNode\<close> and the accumulated transform.
\<close>

function walk_up ::
  "aiNode \<Rightarrow> node_ptr list \<Rightarrow> node_ptr \<Rightarrow> aiMatrix4x4 \<Rightarrow> (node_ptr \<times> aiMatrix4x4) option" where
  "walk_up rootNode nodesWithAnimationData currentNode rel =
     (case mParent currentNode of
        None \<Rightarrow> Some (currentNode, rel)
      | Some up \<Rightarrow>
          if up \<in> set nodesWithAnimationData then Some (currentNode, rel)
          else do {
            n \<leftarrow> node_at rootNode up;
            walk_up rootNode nodesWithAnimationData up (mat_mul (mTransformation n) rel)
          })"
  by pat_completeness auto
termination
  by (relation "measure (\<lambda>(rootNode, s, currentNode, rel). length currentNode)")
     (auto simp: mParent_def split: if_splits)

declare walk_up.simps [simp del]

text \<open>Lines 49-64: the record of one node of the set.\<close>

definition node_info ::
  "aiNode \<Rightarrow> node_ptr list \<Rightarrow> real \<Rightarrow> node_ptr \<Rightarrow> AnimationNodeInfo option" where
  "node_info rootNode nodesWithAnimationData modelScale p =
     do {
       (currentNode, rel) \<leftarrow> walk_up rootNode nodesWithAnimationData p aiMatrix4x4_default;
       Some \<lparr>node = p,
             parent = mParent currentNode,
             relativeTransform =
               (if mParent currentNode = None then mat_mul (uniform_scale_matrix modelScale) rel
                else rel)\<rparr>
     }"

text \<open>
  \<open>std::sort\<close> is modelled by \<open>sort_key\<close>: the keys are the positions of distinct
  nodes in \<open>nodeOrder\<close>, so no two elements compare equal and every sorting algorithm
  gives the same list.
\<close>

definition findNodesForWithAnimation ::
  "(node_ptr \<Rightarrow> nat) \<Rightarrow> aiScene \<Rightarrow> aiNode list \<Rightarrow> real \<Rightarrow> AnimationNodeInfo list option" where
  "findNodesForWithAnimation addr scene usedNodes modelScale =
     do {
       names \<leftarrow> animatedNodeNames scene usedNodes;
       (nodesWithAnimationData, nodeOrder) \<leftarrow>
         for_each (visit_node addr (mRootNode scene) names)
           (forEachNode [] (mRootNode scene)) ([], []);
       nodesWithAnimation \<leftarrow>
         those (map (node_info (mRootNode scene) nodesWithAnimationData modelScale)
                  nodesWithAnimationData);
       Some (sort_key (\<lambda>a. nodeOrder_lookup nodeOrder (node a)) nodesWithAnimation)
     }"

section \<open>The clips of a scene\<close>

text \<open>
  \<open>generateAnimationData\<close>: \<open>translateAnimationToSK\<close>, \<open>formatAnimationChunks\<close> and
  \<open>GetUniqueName\<close> are defined in other files of the repository and are parameters.
  The first returns the translated animation, or \<open>None\<close> where the source returns
  \<open>false\<close>; the last is taken as a function of the requested name.
\<close>

record 'c SKAnimation =
  chunks :: 'c
  maxTicks :: nat

record SKAnimationHeader =
  firstChunkSize :: nat
  header_ticksPerSecond :: nat
  header_maxTicks :: nat
  animationName :: string

definition generateAnimationData ::
  "(aiAnimation \<Rightarrow> 'c SKAnimation option) \<Rightarrow> (string \<Rightarrow> 'c \<Rightarrow> nat) \<Rightarrow> (string \<Rightarrow> string) \<Rightarrow>
   aiScene \<Rightarrow> nat \<Rightarrow> SKAnimationHeader list" where
  "generateAnimationData translateAnimationToSK formatAnimationChunks GetUniqueName
       scene targetTicksPerSecond =
     concat (map (\<lambda>a.
       case translateAnimationToSK a of
         None \<Rightarrow> []
       | Some animation \<Rightarrow>
           (let animationName = GetUniqueName (aiAnimation.mName a)
            in [\<lparr>firstChunkSize = formatAnimationChunks animationName (chunks animation),
                  header_ticksPerSecond = targetTicksPerSecond,
                  header_maxTicks = maxTicks animation,
                  animationName = animationName\<rparr>]))
       (mAnimations scene))"

text \<open>Lines 259-263: every animation of the scene is resampled, in order.\<close>

definition generateAnimationDataV2 ::
  "(aiQuaternion \<Rightarrow> aiQuaternion \<Rightarrow> real \<Rightarrow> aiQuaternion) \<Rightarrow>
   aiScene \<Rightarrow> Bone list \<Rightarrow> DisplayListSettings \<Rightarrow> SKAnimationClip list option" where
  "generateAnimationDataV2 Interpolate scene bones settings =
     those (map (\<lambda>animation. generateanimationV2 Interpolate animation bones settings)
              (mAnimations scene))"

section \<open>Notions of the specification\<close>

text \<open>
  \<open>i\<close> is the first key index whose time is at or after the query time, among the
  first \<open>keyCount\<close> keys.
\<close>

definition first_key_at_or_after :: "'a key list \<Rightarrow> nat \<Rightarrow> real \<Rightarrow> nat \<Rightarrow> bool" where
  "first_key_at_or_after keys keyCount at' i \<longleftrightarrow>
     i < keyCount \<and> at' \<le> mTime (keys ! i) \<and> list_all (\<lambda>k. mTime k < at') (take i keys)"

text \<open>
  The interpolation factor between the keys \<open>i - 1\<close> and \<open>i\<close> as the specification
  states it, in \<open>double\<close> arithmetic: the elapsed share of the interval, and 0 when the
  interval, as a double, is exactly 1.
\<close>

definition key_interval :: "'a key list \<Rightarrow> nat \<Rightarrow> real" where
  "key_interval keys i = to_double (mTime (keys ! i) - mTime (keys ! (i - 1)))"

definition interpolation_factor :: "'a key list \<Rightarrow> real \<Rightarrow> nat \<Rightarrow> real" where
  "interpolation_factor keys at' i =
     (if key_interval keys i = 1 then 0
      else to_double (to_double (at' - mTime (keys ! (i - 1))) / key_interval keys i))"

text \<open>
  A real number that a \<open>double\<close> holds, one that a \<open>float\<close> holds, and a vector of
  the latter.
\<close>

definition is_double :: "real \<Rightarrow> bool" where
  "is_double x \<longleftrightarrow> to_double x = x"

definition is_float :: "real \<Rightarrow> bool" where
  "is_float x \<longleftrightarrow> to_float x = x"

definition float_vector :: "aiVector3D \<Rightarrow> bool" where
  "float_vector v \<longleftrightarrow> is_float (vx v) \<and> is_float (vy v) \<and> is_float (vz v)"

section \<open>Example inputs\<close>

definition unit_step_keys :: "aiVector3D key list" where
  "unit_step_keys = [\<lparr>mTime = 0, mValue = Vec3 0 0 0\<rparr>, \<lparr>mTime = 1, mValue = Vec3 1 0 0\<rparr>]"

text \<open>Two keys at the doubles nearest to 0.1 and 1.1: their difference rounds to 1.\<close>

definition tenth_keys :: "aiVector3D key list" where
  "tenth_keys =
     [\<lparr>mTime = 3602879701896397 / 2 ^ 55, mValue = Vec3 1 2 3\<rparr>,
      \<lparr>mTime = 4953959590107546 / 2 ^ 52, mValue = Vec3 4 5 6\<rparr>]"

definition ten_tick_keys :: "aiVector3D key list" where
  "ten_tick_keys = [\<lparr>mTime = 0, mValue = Vec3 0 0 0\<rparr>, \<lparr>mTime = 10, mValue = Vec3 2 4 6\<rparr>]"

definition ten_tick_rotations :: "aiQuaternion key list" where
  "ten_tick_rotations = [\<lparr>mTime = 0, mValue = Quat 1 0 0 0\<rparr>, \<lparr>mTime = 10, mValue = Quat 0 1 0 0\<rparr>]"

text \<open>A stand-in for the library's interpolation where an example needs a function.\<close>

definition nearest_key :: "aiQuaternion \<Rightarrow> aiQuaternion \<Rightarrow> real \<Rightarrow> aiQuaternion" where
  "nearest_key a b t = a"

section \<open>Notions of the resampler\<close>

text \<open>The quotient of line 177 as the \<open>double\<close> arithmetic gives it.\<close>

definition frame_quotient :: "aiAnimation \<Rightarrow> DisplayListSettings \<Rightarrow> real" where
  "frame_quotient animation settings =
     to_double (to_double (mDuration animation
                             * real (DisplayListSettings.mTicksPerSecond settings))
                / aiAnimation.mTicksPerSecond animation)"

text \<open>Every row of the frame table has one entry per bone.\<close>

definition frame_table :: "FrameData list list \<Rightarrow> nat \<Rightarrow> nat \<Rightarrow> bool" where
  "frame_table allFrameData n m \<longleftrightarrow>
     length allFrameData = n \<and> list_all (\<lambda>row. length row = m) allFrameData"

text \<open>The entry that lines 204-216 store for a bone with a channel, at one frame.\<close>

definition channel_frame ::
  "(aiQuaternion \<Rightarrow> aiQuaternion \<Rightarrow> real \<Rightarrow> aiQuaternion) \<Rightarrow>
   aiAnimation \<Rightarrow> DisplayListSettings \<Rightarrow> Bone \<Rightarrow> aiNodeAnim \<Rightarrow> nat \<Rightarrow> FrameData option" where
  "channel_frame Interpolate animation settings bone nodeAnim frame =
     map_option
       (\<lambda>(origin, rotation).
          \<lparr>position = vscale origin (mFixedPointScale settings), rotation = rotation\<rparr>)
       (sample_bone Interpolate animation settings bone nodeAnim frame)"

text \<open>The entry of a bone at a frame: the default where the bone has no channel.\<close>

definition bone_frame ::
  "(aiQuaternion \<Rightarrow> aiQuaternion \<Rightarrow> real \<Rightarrow> aiQuaternion) \<Rightarrow>
   aiAnimation \<Rightarrow> DisplayListSettings \<Rightarrow> Bone \<Rightarrow> nat \<Rightarrow> FrameData option" where
  "bone_frame Interpolate animation settings bone frame =
     (case find_channel animation bone of
        None \<Rightarrow> Some FrameData_default
      | Some nodeAnim \<Rightarrow> channel_frame Interpolate animation settings bone nodeAnim frame)"

section \<open>Example clips, bones and settings\<close>

definition example_settings :: DisplayListSettings where
  "example_settings =
     \<lparr>mTicksPerSecond = 20, mFixedPointScale = 256, mModelScale = 2, mRotateModel = Quat 0 1 0 0\<rparr>"

definition example_bones :: "Bone list" where
  "example_bones = [\<lparr>GetName = ''hip'', GetParent = None\<rparr>, \<lparr>GetName = ''knee'', GetParent = Some 0\<rparr>]"

text \<open>A clip of 100 ticks at 30 ticks per second whose only channel names no bone.\<close>

definition hundred_tick_clip :: aiAnimation where
  "hundred_tick_clip =
     \<lparr>aiAnimation.mName = ''walk'', mDuration = 100, aiAnimation.mTicksPerSecond = 30,
      mChannels = [\<lparr>mNodeName = ''lamp'', mNumPositionKeys = 0, mPositionKeys = [],
                    mNumRotationKeys = 0, mRotationKeys = []\<rparr>]\<rparr>"

definition zero_duration_clip :: aiAnimation where
  "zero_duration_clip = \<lparr>aiAnimation.mName = ''pose'', mDuration = 0, aiAnimation.mTicksPerSecond = 30,
      mChannels = []\<rparr>"

text \<open>
  A clip whose duration is the double nearest to 0.4, at 1 tick per second, and settings
  that resample at 30 ticks per second.
\<close>

definition two_fifths_clip :: aiAnimation where
  "two_fifths_clip = \<lparr>aiAnimation.mName = ''blink'', mDuration = 3602879701896397 / 2 ^ 53,
      aiAnimation.mTicksPerSecond = 1, mChannels = []\<rparr>"

definition thirty_tick_settings :: DisplayListSettings where
  "thirty_tick_settings =
     \<lparr>mTicksPerSecond = 30, mFixedPointScale = 256, mModelScale = 1, mRotateModel = Quat 1 0 0 0\<rparr>"

text \<open>A scene of one node whose only clip names no bone.\<close>

definition lamp_scene :: aiScene where
  "lamp_scene =
     \<lparr>mRootNode = Node ''hip'' aiMatrix4x4_default [] [],
      aiScene.mMeshes = [],
      mAnimations = [hundred_tick_clip]\<rparr>"

text \<open>A translation that rejects every clip, and the other two parameters.\<close>

definition reject_all :: "aiAnimation \<Rightarrow> unit SKAnimation option" where
  "reject_all a = None"

section \<open>Notions of the quantization\<close>

text \<open>The quaternion or its negation, whichever has a non-negative scalar component.\<close>

definition qneg :: "aiQuaternion \<Rightarrow> aiQuaternion" where
  "qneg q = Quat (- qw q) (- qx q) (- qy q) (- qz q)"

definition sign_normalized :: "aiQuaternion \<Rightarrow> aiQuaternion" where
  "sign_normalized q = (if qw q < 0 then qneg q else q)"

text \<open>
  The values of lines 204-207 for a channel at a frame: the evaluated position and
  rotation, before any correction and before the fixed-point scale.
\<close>

definition evaluate_channel ::
  "(aiQuaternion \<Rightarrow> aiQuaternion \<Rightarrow> real \<Rightarrow> aiQuaternion) \<Rightarrow>
   aiAnimation \<Rightarrow> nat \<Rightarrow> aiNodeAnim \<Rightarrow> nat \<Rightarrow> (aiVector3D \<times> aiQuaternion) option" where
  "evaluate_channel Interpolate animation targetTicksPerSecond nodeAnim frame =
     do {
       let at' = to_double (to_double (real frame * aiAnimation.mTicksPerSecond animation)
                   / real targetTicksPerSecond);
       origin \<leftarrow> evaluateVectorAt (mPositionKeys nodeAnim) (mNumPositionKeys nodeAnim) at';
       rotation \<leftarrow> evaluateQuaternionAt Interpolate (mRotationKeys nodeAnim) (mNumRotationKeys nodeAnim) at';
       Some (origin, rotation)
     }"

text \<open>A clip of one frame with a channel for each of the two example bones.\<close>

definition two_bone_clip :: aiAnimation where
  "two_bone_clip =
     \<lparr>aiAnimation.mName = ''bend'', mDuration = 1, aiAnimation.mTicksPerSecond = 20,
      mChannels =
        [\<lparr>mNodeName = ''hip'',
          mNumPositionKeys = 1, mPositionKeys = [\<lparr>mTime = 0, mValue = Vec3 1 2 3\<rparr>],
          mNumRotationKeys = 1, mRotationKeys = [\<lparr>mTime = 0, mValue = Quat 1 0 0 0\<rparr>]\<rparr>,
         \<lparr>mNodeName = ''knee'',
          mNumPositionKeys = 1, mPositionKeys = [\<lparr>mTime = 0, mValue = Vec3 4 5 6\<rparr>],
          mNumRotationKeys = 1, mRotationKeys = [\<lparr>mTime = 0, mValue = Quat 0 0 1 0\<rparr>]\<rparr>]\<rparr>"

definition other_settings :: DisplayListSettings where
  "other_settings =
     \<lparr>mTicksPerSecond = 20, mFixedPointScale = 256, mModelScale = 3, mRotateModel = Quat 1 0 0 0\<rparr>"

section \<open>Notions of the hierarchy resolution\<close>

text \<open>A node is animation-relevant when its name is among the collected names.\<close>

definition animation_relevant :: "aiNode \<Rightarrow> string set \<Rightarrow> node_ptr \<Rightarrow> bool" where
  "animation_relevant rootNode names p =
     (case node_at rootNode p of None \<Rightarrow> False | Some n \<Rightarrow> aiNode.mName n \<in> names)"

text \<open>The local transform of the node at a path (the identity where there is none).\<close>

definition local_transform :: "aiNode \<Rightarrow> node_ptr \<Rightarrow> aiMatrix4x4" where
  "local_transform rootNode p =
     (case node_at rootNode p of None \<Rightarrow> aiMatrix4x4_default | Some n \<Rightarrow> mTransformation n)"

text \<open>
  The local transforms of all proper ancestors of a node, multiplied from the root
  (leftmost) down to the node's parent (rightmost), times the identity.
\<close>

definition ancestor_product :: "aiNode \<Rightarrow> node_ptr \<Rightarrow> aiMatrix4x4" where
  "ancestor_product rootNode p =
     foldr (\<lambda>k acc. mat_mul (local_transform rootNode (take k p)) acc) [0..<length p]
       aiMatrix4x4_default"

section \<open>Example scenes\<close>

text \<open>A pure translation, as the library lays it out (last column).\<close>

definition translation_matrix :: "real \<Rightarrow> real \<Rightarrow> real \<Rightarrow> aiMatrix4x4" where
  "translation_matrix tx ty tz = Mat4 (Vec4 1 0 0 tx) (Vec4 0 1 0 ty) (Vec4 0 0 1 tz) (Vec4 0 0 0 1)"

text \<open>A chain of three nodes, each with its own translation, and a second child of the root.\<close>

definition chain_tree :: aiNode where
  "chain_tree =
     Node ''hip'' (translation_matrix 1 0 0) []
       [Node ''helper'' (translation_matrix 0 2 0) []
          [Node ''knee'' (translation_matrix 0 0 3) [] []],
        Node ''lamp'' (translation_matrix 5 5 5) [] []]"

text \<open>The clip names \<open>hip\<close> and \<open>knee\<close>: the node between them is not relevant.\<close>

definition chain_scene :: aiScene where
  "chain_scene = \<lparr>mRootNode = chain_tree, aiScene.mMeshes = [], mAnimations = [two_bone_clip]\<rparr>"



text \<open>Two address orders: the root first, and the deepest node first.\<close>

definition root_first :: "node_ptr \<Rightarrow> nat" where
  "root_first p = length p"

definition deepest_first :: "node_ptr \<Rightarrow> nat" where
  "deepest_first p = 5 - length p"

section \<open>Rounding\<close>

lemma round_half_even_of_int: "round_half_even (of_int n) = n"
  by (simp add: round_half_even_def)



lemma round_ieee_zero: "round_ieee p emin 0 = 0"
  by (simp add: round_ieee_def)

lemma binade_below:
  assumes "x \<noteq> 0" "\<bar>x\<bar> < 2 powr of_int b" "emin \<le> b - 1"
  shows "max emin \<lfloor>log 2 \<bar>x\<bar>\<rfloor> \<le> b - 1"
proof -
  have "log 2 \<bar>x\<bar> < of_int b" using assms(1,2) by (simp add: log_less_iff)
  then have "\<lfloor>log 2 \<bar>x\<bar>\<rfloor> < b" by (simp add: floor_less_iff)
  then show ?thesis using assms(3) by simp
qed

lemma two_powr_int_diff:
  assumes "j \<le> k"
  shows "2 powr of_int k / 2 powr of_int j = (2::real) ^ nat (k - j)"
proof -
  have "2 powr of_int k / 2 powr of_int j = (2::real) powr (of_int k - of_int j)"
    by (simp add: powr_diff)
  also have "of_int k - of_int j = real (nat (k - j))" using assms by simp
  also have "(2::real) powr real (nat (k - j)) = 2 ^ nat (k - j)" by (simp add: powr_realpow)
  finally show ?thesis .
qed

lemma round_ieee_fix:
  assumes "x = of_int m * 2 powr of_int k" "\<bar>m\<bar> < 2 ^ p" "emin - int p + 1 \<le> k"
  shows "round_ieee p emin x = x"
proof (cases "m = 0")
  case True
  then show ?thesis using assms(1) by (simp add: round_ieee_zero)
next
  case False
  then have x0: "x \<noteq> 0" using assms(1) by simp
  let ?e = "max emin \<lfloor>log 2 \<bar>x\<bar>\<rfloor>"
  let ?j = "?e - int p + 1"
  have "\<bar>x\<bar> = of_int \<bar>m\<bar> * 2 powr of_int k" using assms(1) by (simp add: abs_mult)
  also have "\<dots> < 2 ^ p * 2 powr of_int k"
  proof -
    have "real_of_int \<bar>m\<bar> < 2 ^ p" using assms(2) by (metis of_int_less_numeral_power_cancel_iff)
    then show ?thesis by simp
  qed
  also have "(2::real) ^ p * 2 powr of_int k = 2 powr of_int (int p + k)"
    by (simp add: powr_add powr_realpow)
  finally have lt: "\<bar>x\<bar> < 2 powr of_int (int p + k)" .
  have "?e \<le> (int p + k) - 1"
    using x0 lt assms(3) by (intro binade_below) simp_all
  then have jk: "?j \<le> k" by linarith
  have q: "x / 2 powr of_int ?j = of_int (m * 2 ^ nat (k - ?j))"
  proof -
    have "x / 2 powr of_int ?j = of_int m * (2 powr of_int k / 2 powr of_int ?j)"
      using assms(1) by simp
    also have "\<dots> = of_int m * 2 ^ nat (k - ?j)" by (simp only: two_powr_int_diff [OF jk])
    finally show ?thesis by simp
  qed
  have "round_ieee p emin x = of_int (round_half_even (x / 2 powr of_int ?j)) * 2 powr of_int ?j"
    using x0 by (simp add: round_ieee_def Let_def)
  also have "\<dots> = of_int (m * 2 ^ nat (k - ?j)) * 2 powr of_int ?j"
    by (simp only: q round_half_even_of_int)
  also have "\<dots> = x / 2 powr of_int ?j * 2 powr of_int ?j" by (simp only: q)
  also have "\<dots> = x" by simp
  finally show ?thesis .
qed


lemma to_double_zero: "to_double 0 = 0"
  by (simp add: to_double_def round_ieee_zero)

lemma to_float_zero: "to_float 0 = 0"
  by (simp add: to_float_def round_ieee_zero)

lemma to_double_of_int: "\<bar>m\<bar> < 2 ^ 53 \<Longrightarrow> to_double (of_int m) = of_int m"
  unfolding to_double_def by (rule round_ieee_fix [where m = m and k = 0]) simp_all

lemma to_float_of_int: "\<bar>m\<bar> < 2 ^ 24 \<Longrightarrow> to_float (of_int m) = of_int m"
  unfolding to_float_def by (rule round_ieee_fix [where m = m and k = 0]) simp_all


lemma to_double_numeral: "(numeral n :: int) < 2 ^ 53 \<Longrightarrow> to_double (numeral n) = numeral n"
  using to_double_of_int [of "numeral n"] by simp

lemma to_double_neg_numeral:
  "(numeral n :: int) < 2 ^ 53 \<Longrightarrow> to_double (- numeral n) = - numeral n"
  using to_double_of_int [of "- numeral n"] by simp

lemma to_double_one: "to_double 1 = 1"
  using to_double_of_int [of 1] by simp

lemma to_float_numeral: "(numeral n :: int) < 2 ^ 24 \<Longrightarrow> to_float (numeral n) = numeral n"
  using to_float_of_int [of "numeral n"] by simp

lemma to_float_neg_numeral:
  "(numeral n :: int) < 2 ^ 24 \<Longrightarrow> to_float (- numeral n) = - numeral n"
  using to_float_of_int [of "- numeral n"] by simp

lemma to_float_one: "to_float 1 = 1"
  using to_float_of_int [of 1] by simp

lemma to_float_neg_one: "to_float (- 1) = - 1"
  using to_float_of_int [of "- 1"] by simp


lemma round_half_even_error: "\<bar>of_int (round_half_even x) - x\<bar> \<le> 1 / 2"
proof -
  have a: "of_int \<lfloor>x\<rfloor> \<le> x" and b: "x < of_int \<lfloor>x\<rfloor> + 1" by linarith+
  show ?thesis
    unfolding round_half_even_def Let_def using a b by (auto simp: abs_le_iff)
qed



lemma round_ieee_multiple:
  "\<exists>m::int. round_ieee p emin x = of_int m * 2 powr of_int (emin - int p + 1)"
proof (cases "x = 0")
  case True
  have "round_ieee p emin x = of_int 0 * 2 powr of_int (emin - int p + 1)"
    using True by (simp add: round_ieee_zero)
  then show ?thesis by blast
next
  case False
  let ?e = "max emin \<lfloor>log 2 \<bar>x\<bar>\<rfloor>"
  let ?u = "(2::real) powr of_int (?e - int p + 1)"
  define t where "t = nat (?e - emin)"
  have i: "?e - int p + 1 = (emin - int p + 1) + int t" by (simp add: t_def)
  have "?u = 2 powr of_int ((emin - int p + 1) + int t)" by (subst i) (rule refl)
  also have "\<dots> = 2 powr of_int (emin - int p + 1) * 2 powr real t"
    by (simp only: of_int_add of_int_of_nat_eq powr_add)
  also have "(2::real) powr real t = 2 ^ t" by (rule powr_realpow) simp
  finally have u: "?u = 2 powr of_int (emin - int p + 1) * 2 ^ t" .
  have "round_ieee p emin x = of_int (round_half_even (x / ?u)) * ?u"
    using False by (simp add: round_ieee_def Let_def)
  also have "\<dots> = of_int (round_half_even (x / ?u) * 2 ^ t) * 2 powr of_int (emin - int p + 1)"
    unfolding u by simp
  finally show ?thesis by blast
qed

lemma round_half_even_nonzero:
  assumes "1 \<le> \<bar>y\<bar>"
  shows "round_half_even y \<noteq> 0"
proof
  assume "round_half_even y = 0"
  then have "\<bar>y\<bar> \<le> 1 / 2" using round_half_even_error [of y] by simp
  then show False using assms by simp
qed

lemma round_ieee_nonzero:
  assumes "x = of_int k * 2 powr of_int (emin - int p + 1)" "k \<noteq> 0" "1 \<le> p"
  shows "round_ieee p emin x \<noteq> 0"
proof -
  have x0: "x \<noteq> 0" using assms(1,2) by simp
  let ?l = "\<lfloor>log 2 \<bar>x\<bar>\<rfloor>"
  let ?e = "max emin ?l"
  let ?u = "(2::real) powr of_int (?e - int p + 1)"
  have upos: "0 < ?u" by simp
  have "?u \<le> \<bar>x\<bar>"
  proof (cases "?l \<le> emin")
    case True
    then have e: "?e = emin" by simp
    have "1 \<le> \<bar>real_of_int k\<bar>" using assms(2) by (simp flip: of_int_abs)
    then have m: "1 * 2 powr of_int (emin - int p + 1)
         \<le> \<bar>real_of_int k\<bar> * 2 powr of_int (emin - int p + 1)"
      by (intro mult_right_mono) simp_all
    have ue: "?u = 2 powr of_int (emin - int p + 1)" by (simp only: e)
    have ax: "\<bar>x\<bar> = \<bar>real_of_int k\<bar> * 2 powr of_int (emin - int p + 1)"
      by (subst assms(1)) (simp add: abs_mult)
    have "2 powr of_int (emin - int p + 1) \<le> \<bar>x\<bar>" unfolding ax using m by simp
    then show ?thesis by (simp only: ue)
  next
    case False
    then have e: "?e = ?l" by simp
    have "2 powr of_int ?l \<le> 2 powr log 2 \<bar>x\<bar>" by (rule powr_mono) simp_all
    also have "2 powr log 2 \<bar>x\<bar> = \<bar>x\<bar>" using x0 by simp
    finally have "2 powr of_int ?l \<le> \<bar>x\<bar>" .
    moreover have "of_int (?l - int p + 1) \<le> (of_int ?l :: real)" using assms(3) by simp
    then have "(2::real) powr of_int (?l - int p + 1) \<le> 2 powr of_int ?l"
      by (simp only: powr_le_cancel_iff)
    ultimately show ?thesis unfolding e by linarith
  qed
  then have "1 \<le> \<bar>x\<bar> / ?u" using upos by (simp add: field_simps)
  then have "1 \<le> \<bar>x / ?u\<bar>" by simp
  then have r: "round_half_even (x / ?u) \<noteq> 0" by (rule round_half_even_nonzero)
  have "round_ieee p emin x = of_int (round_half_even (x / ?u)) * ?u"
    using x0 by (simp add: round_ieee_def Let_def)
  then show ?thesis using r upos by simp
qed

lemma double_difference_nonzero:
  assumes "is_double a" "is_double b" "a \<noteq> b"
  shows "to_double (b - a) \<noteq> 0"
proof -
  let ?u = "(2::real) powr of_int (- 1022 - int 53 + 1)"
  from round_ieee_multiple [of 53 "- 1022" a] assms(1)
  obtain m where a: "a = of_int m * ?u" by (auto simp: is_double_def to_double_def)
  from round_ieee_multiple [of 53 "- 1022" b] assms(2)
  obtain n where b: "b = of_int n * ?u" by (auto simp: is_double_def to_double_def)
  have "n \<noteq> m" using assms(3) a b by auto
  then have k: "n - m \<noteq> 0" by simp
  have "b - a = of_int (n - m) * ?u" unfolding a b by (simp add: algebra_simps)
  from round_ieee_nonzero [OF this k] show ?thesis by (simp add: to_double_def)
qed

lemma is_double_fraction:
  assumes "\<bar>m\<bar> < 2 ^ 53" "n \<le> 1074"
  shows "is_double (of_int m / 2 ^ n)"
proof -
  have "(2::real) powr of_int (- int n) = 1 / 2 ^ n"
    using powr_minus_divide [of "2::real" "real n"] powr_realpow [of "2::real" n] by simp
  then have "real_of_int m / 2 ^ n = of_int m * 2 powr of_int (- int n)" by simp
  from round_ieee_fix [OF this assms(1), of "- 1022"] assms(2)
  show ?thesis by (simp add: is_double_def to_double_def)
qed

lemma round_ieee_binade:
  fixes k p :: nat
  assumes "2 ^ k \<le> x" "x < 2 ^ (k + 1)" "k < p" "emin \<le> int k"
  shows "round_ieee p emin x = of_int (round_half_even (x * 2 ^ (p - 1 - k))) / 2 ^ (p - 1 - k)"
proof -
  have "(0::real) < 2 ^ k" by simp
  then have x0: "0 < x" using assms(1) by linarith
  have p1: "(2::real) powr of_int (int k) = 2 ^ k" by (simp add: powr_realpow)
  have p2: "(2::real) powr of_int (int k + 1) = 2 ^ (k + 1)"
    using powr_realpow [of "2::real" "k + 1"] by (simp add: add.commute)
  have "\<lfloor>log 2 x\<rfloor> = int k"
    using floor_log_eq_powr_iff [of x 2 "int k"] x0 assms(1,2) p1 p2 by simp
  then have e: "max emin \<lfloor>log 2 \<bar>x\<bar>\<rfloor> = int k" using x0 assms(4) by simp
  have a: "(2::real) powr real (p - 1 - k) = 2 ^ (p - 1 - k)" by (rule powr_realpow) simp
  have u0: "(2::real) powr (- real (p - 1 - k)) = 1 / 2 ^ (p - 1 - k)"
    unfolding powr_minus_divide a by (rule refl)
  have c: "(of_int (int k - int p + 1) :: real) = - real (p - 1 - k)"
    using assms(3) by simp
  have u: "(2::real) powr of_int (int k - int p + 1) = 1 / 2 ^ (p - 1 - k)"
    unfolding c u0 by (rule refl)
  show ?thesis
    unfolding round_ieee_def Let_def e u using x0 by simp
qed

lemma to_double_binade:
  fixes k :: nat
  assumes "2 ^ k \<le> x" "x < 2 ^ (k + 1)" "k \<le> 52"
  shows "to_double x = of_int (round_half_even (x * 2 ^ (52 - k))) / 2 ^ (52 - k)"
  using round_ieee_binade [OF assms(1,2), of 53 "- 1022"] assms(3)
  by (simp add: to_double_def)

lemma to_float_binade:
  fixes k :: nat
  assumes "2 ^ k \<le> x" "x < 2 ^ (k + 1)" "k \<le> 23"
  shows "to_float x = of_int (round_half_even (x * 2 ^ (23 - k))) / 2 ^ (23 - k)"
  using round_ieee_binade [OF assms(1,2), of 24 "- 126"] assms(3)
  by (simp add: to_float_def)

section \<open>Keyframe evaluation: the search\<close>

lemma findStartValue_from_step:
  "startValue < keyCount \<Longrightarrow> keyCount \<le> length keys \<Longrightarrow> mTime (keys ! startValue) < at' \<Longrightarrow>
   findStartValue_from keys keyCount at' startValue lerp =
   findStartValue_from keys keyCount at' (Suc startValue) lerp"
  by (subst findStartValue_from.simps) (simp add: at_index_def)

lemma findStartValue_from_stop:
  "keyCount \<le> startValue \<Longrightarrow>
   findStartValue_from keys keyCount at' startValue lerp = Some (startValue, lerp)"
  by (subst findStartValue_from.simps) simp

lemma findStartValue_from_hit:
  "i < keyCount \<Longrightarrow> keyCount \<le> length keys \<Longrightarrow> at' \<le> mTime (keys ! i) \<Longrightarrow>
   findStartValue_from keys keyCount at' i lerp =
     (if i = 0 then Some (0, 0) else Some (i - 1, interpolation_factor keys at' i))"
  by (subst findStartValue_from.simps)
     (auto simp: at_index_def Let_def interpolation_factor_def key_interval_def)

lemma findStartValue_from_none:
  "startValue \<le> keyCount \<Longrightarrow> keyCount \<le> length keys \<Longrightarrow>
   \<forall>j. startValue \<le> j \<and> j < keyCount \<longrightarrow> mTime (keys ! j) < at' \<Longrightarrow>
   findStartValue_from keys keyCount at' startValue lerp = Some (keyCount, lerp)"
proof (induction "keyCount - startValue" arbitrary: startValue)
  case 0
  then show ?case by (simp add: findStartValue_from_stop)
next
  case (Suc n)
  then have lt: "startValue < keyCount" by simp
  have "findStartValue_from keys keyCount at' (Suc startValue) lerp = Some (keyCount, lerp)"
    using Suc(2-) by (intro Suc(1)) auto
  then show ?case
    using lt Suc(4,5) findStartValue_from_step [of startValue keyCount keys at' lerp] by simp
qed

lemma findStartValue_from_found:
  "startValue \<le> i \<Longrightarrow> i < keyCount \<Longrightarrow> keyCount \<le> length keys \<Longrightarrow>
   \<forall>j. startValue \<le> j \<and> j < i \<longrightarrow> mTime (keys ! j) < at' \<Longrightarrow>
   at' \<le> mTime (keys ! i) \<Longrightarrow>
   findStartValue_from keys keyCount at' startValue lerp =
   findStartValue_from keys keyCount at' i lerp"
proof (induction "i - startValue" arbitrary: startValue)
  case 0
  then show ?case by simp
next
  case (Suc n)
  then have lt: "startValue < i" by simp
  have "findStartValue_from keys keyCount at' (Suc startValue) lerp =
        findStartValue_from keys keyCount at' i lerp"
    using Suc(2-) by (intro Suc(1)) auto
  then show ?case
    using lt Suc(4,5,6) findStartValue_from_step [of startValue keyCount keys at' lerp] by simp
qed

lemma first_index_cases:
  fixes keys :: "'a key list"
  shows "(\<forall>j < keyCount. mTime (keys ! j) < at') \<or>
   (\<exists>i < keyCount. at' \<le> mTime (keys ! i) \<and> (\<forall>j < i. mTime (keys ! j) < at'))"
proof (induction keyCount)
  case 0
  then show ?case by simp
next
  case (Suc n)
  from Suc show ?case
  proof
    assume all: "\<forall>j < n. mTime (keys ! j) < at'"
    show ?thesis
    proof (cases "mTime (keys ! n) < at'")
      case True
      with all have "\<forall>j < Suc n. mTime (keys ! j) < at'"
        by (simp add: less_Suc_eq)
      then show ?thesis ..
    next
      case False
      then have "n < Suc n \<and> at' \<le> mTime (keys ! n) \<and> (\<forall>j < n. mTime (keys ! j) < at')"
        using all by simp
      then show ?thesis by blast
    qed
  next
    assume "\<exists>i < n. at' \<le> mTime (keys ! i) \<and> (\<forall>j < i. mTime (keys ! j) < at')"
    then obtain i where "i < n" "at' \<le> mTime (keys ! i)" "\<forall>j < i. mTime (keys ! j) < at'"
      by blast
    then have "i < Suc n \<and> at' \<le> mTime (keys ! i) \<and> (\<forall>j < i. mTime (keys ! j) < at')"
      by simp
    then show ?thesis by blast
  qed
qed

lemma first_key_before:
  "first_key_at_or_after keys keyCount at' i \<Longrightarrow> keyCount \<le> length keys \<Longrightarrow>
   \<forall>j. 0 \<le> j \<and> j < i \<longrightarrow> mTime (keys ! j) < at'"
  by (auto simp: first_key_at_or_after_def list_all_length)

lemma findStartValue_first:
  assumes "keyCount \<le> length keys" "first_key_at_or_after keys keyCount at' i" "0 < i"
  shows "findStartValue keys keyCount at' lerp = Some (i - 1, interpolation_factor keys at' i)"
proof -
  have i: "i < keyCount" "at' \<le> mTime (keys ! i)"
    using assms(2) by (simp_all add: first_key_at_or_after_def)
  have "findStartValue_from keys keyCount at' 0 lerp = findStartValue_from keys keyCount at' i lerp"
    using i assms(1) first_key_before [OF assms(2,1)]
    by (intro findStartValue_from_found) simp_all
  then show ?thesis
    using i assms(1,3)
    by (simp add: findStartValue_def findStartValue_from_hit)
qed

lemma findStartValue_zero:
  assumes "keyCount \<le> length keys" "first_key_at_or_after keys keyCount at' 0"
  shows "findStartValue keys keyCount at' lerp = Some (0, 0)"
  using assms by (simp add: findStartValue_def findStartValue_from_hit first_key_at_or_after_def)

lemma findStartValue_beyond:
  assumes "keyCount \<le> length keys" "\<forall>j<keyCount. mTime (keys ! j) < at'"
  shows "findStartValue keys keyCount at' lerp = Some (keyCount, lerp)"
  using assms by (simp add: findStartValue_def findStartValue_from_none)

lemma findStartValue_cases:
  assumes "keyCount \<le> length keys"
  shows "findStartValue keys keyCount at' lerp = Some (keyCount, lerp) \<or>
         (0 < keyCount \<and> findStartValue keys keyCount at' lerp = Some (0, 0)) \<or>
         (\<exists>i. 0 < i \<and> i < keyCount \<and>
            findStartValue keys keyCount at' lerp = Some (i - 1, interpolation_factor keys at' i))"
proof -
  from first_index_cases [of keyCount keys at']
  show ?thesis
  proof
    assume "\<forall>j<keyCount. mTime (keys ! j) < at'"
    then show ?thesis using assms by (simp add: findStartValue_beyond)
  next
    assume "\<exists>i<keyCount. at' \<le> mTime (keys ! i) \<and> (\<forall>j<i. mTime (keys ! j) < at')"
    then obtain i where i: "i < keyCount" "at' \<le> mTime (keys ! i)" "\<forall>j<i. mTime (keys ! j) < at'"
      by blast
    then have f: "first_key_at_or_after keys keyCount at' i"
      using assms by (simp add: first_key_at_or_after_def list_all_length)
    show ?thesis
    proof (cases "i = 0")
      case True
      then show ?thesis using f assms i(1) by (simp add: findStartValue_zero)
    next
      case False
      then have "0 < i \<and> i < keyCount \<and>
            findStartValue keys keyCount at' lerp = Some (i - 1, interpolation_factor keys at' i)"
        using f assms i(1) by (simp add: findStartValue_first)
      then show ?thesis by blast
    qed
  qed
qed

lemma vlerp_zero:
  assumes "float_vector a"
  shows "vadd (vscale (vsub b a) (to_float 0)) a = a"
proof -
  obtain a1 a2 a3 where a: "a = Vec3 a1 a2 a3" by (cases a)
  obtain b1 b2 b3 where b: "b = Vec3 b1 b2 b3" by (cases b)
  have "to_float a1 = a1" "to_float a2 = a2" "to_float a3 = a3"
    using assms by (simp_all add: a float_vector_def is_float_def)
  then show ?thesis by (simp add: a b to_float_zero)
qed

section \<open>Keyframe evaluation between two keys\<close>

lemma evaluateVectorAt_between:
  assumes "keyCount = length keys" "first_key_at_or_after keys keyCount at' i" "0 < i"
  shows "evaluateVectorAt keys keyCount at' =
     Some (vadd (vscale (vsub (mValue (keys ! i)) (mValue (keys ! (i - 1))))
                   (to_float (interpolation_factor keys at' i))) (mValue (keys ! (i - 1))))"
proof -
  have i: "i < keyCount" using assms(2) by (simp add: first_key_at_or_after_def)
  have f: "findStartValue keys keyCount at' 0 = Some (i - 1, interpolation_factor keys at' i)"
    using assms by (intro findStartValue_first) simp_all
  show ?thesis
    unfolding evaluateVectorAt_def f using i assms(1,3) by (auto simp: at_index_def)
qed

lemma evaluateQuaternionAt_between:
  assumes "keyCount = length keys" "first_key_at_or_after keys keyCount at' i" "0 < i"
  shows "evaluateQuaternionAt Interpolate keys keyCount at' =
     Some (Interpolate (mValue (keys ! (i - 1))) (mValue (keys ! i))
             (to_float (interpolation_factor keys at' i)))"
proof -
  have i: "i < keyCount" using assms(2) by (simp add: first_key_at_or_after_def)
  have f: "findStartValue keys keyCount at' 0 = Some (i - 1, interpolation_factor keys at' i)"
    using assms by (intro findStartValue_first) simp_all
  show ?thesis
    unfolding evaluateQuaternionAt_def f using i assms(1,3) by (auto simp: at_index_def)
qed

lemma key_times_distinct:
  assumes "keyCount = length keys" "first_key_at_or_after keys keyCount at' i" "0 < i"
  shows "mTime (keys ! (i - 1)) \<noteq> mTime (keys ! i)"
proof -
  have i: "i < length keys" and hi: "at' \<le> mTime (keys ! i)"
    and all: "list_all (\<lambda>k. mTime k < at') (take i keys)"
    using assms(1,2) by (simp_all add: first_key_at_or_after_def)
  have "i - 1 < length (take i keys)" using i assms(3) by simp
  then have "mTime (take i keys ! (i - 1)) < at'" using all by (simp only: list_all_length)
  then have "mTime (keys ! (i - 1)) < at'" using assms(3) by simp
  then show ?thesis using hi by simp
qed

text \<open>
  Claim C7. Over a sequence of at least two keys, let \<open>i > 0\<close> be the first key index
  whose time is at or after the query time. Then the search returns the index \<open>i - 1\<close>
  and, in \<open>double\<close> arithmetic, the factor \<open>(at - time[i-1]) / (time[i] - time[i-1])\<close>,
  except that the factor is 0 when the difference \<open>time[i] - time[i-1]\<close>, as the double
  the subtraction gives, is exactly 1. The vector evaluation interpolates between the
  keys \<open>i - 1\<close> and \<open>i\<close> with that factor, and gives the earlier key's value when the
  factor is 0 by that rule; the quaternion evaluation calls the library's interpolation
  on the two keys with that factor, which is 0 by that rule. When the two key times are
  doubles the divisor, their rounded difference, is not zero.
\<close>

theorem interpolation_factor_between_keys:
  assumes "keyCount = length keys" "first_key_at_or_after keys keyCount at' i" "0 < i"
    and "rotCount = length rots" "first_key_at_or_after rots rotCount at' k" "0 < k"
  shows "findStartValue keys keyCount at' 0 = Some (i - 1, interpolation_factor keys at' i)
       \<and> findStartValue rots rotCount at' 0 = Some (k - 1, interpolation_factor rots at' k)
       \<and> interpolation_factor keys at' i =
           (if to_double (mTime (keys ! i) - mTime (keys ! (i - 1))) = 1 then 0
            else to_double (to_double (at' - mTime (keys ! (i - 1)))
                   / to_double (mTime (keys ! i) - mTime (keys ! (i - 1)))))
       \<and> evaluateVectorAt keys keyCount at' =
           Some (vadd (vscale (vsub (mValue (keys ! i)) (mValue (keys ! (i - 1))))
                   (to_float (interpolation_factor keys at' i))) (mValue (keys ! (i - 1))))
       \<and> (to_double (mTime (keys ! i) - mTime (keys ! (i - 1))) = 1 \<longrightarrow>
            interpolation_factor keys at' i = 0
            \<and> (float_vector (mValue (keys ! (i - 1))) \<longrightarrow>
                 evaluateVectorAt keys keyCount at' = Some (mValue (keys ! (i - 1)))))
       \<and> evaluateQuaternionAt Interpolate rots rotCount at' =
           Some (Interpolate (mValue (rots ! (k - 1))) (mValue (rots ! k))
                   (to_float (interpolation_factor rots at' k)))
       \<and> (to_double (mTime (rots ! k) - mTime (rots ! (k - 1))) = 1 \<longrightarrow>
            evaluateQuaternionAt Interpolate rots rotCount at' =
              Some (Interpolate (mValue (rots ! (k - 1))) (mValue (rots ! k)) 0))
       \<and> (is_double (mTime (keys ! (i - 1))) \<and> is_double (mTime (keys ! i)) \<longrightarrow>
            to_double (mTime (keys ! i) - mTime (keys ! (i - 1))) \<noteq> 0)
       \<and> (is_double (mTime (rots ! (k - 1))) \<and> is_double (mTime (rots ! k)) \<longrightarrow>
            to_double (mTime (rots ! k) - mTime (rots ! (k - 1))) \<noteq> 0)"
proof -
  have a: "findStartValue keys keyCount at' 0 = Some (i - 1, interpolation_factor keys at' i)"
    using assms(1-3) by (intro findStartValue_first) simp_all
  have b: "findStartValue rots rotCount at' 0 = Some (k - 1, interpolation_factor rots at' k)"
    using assms(4-6) by (intro findStartValue_first) simp_all
  have c: "interpolation_factor keys at' i =
           (if to_double (mTime (keys ! i) - mTime (keys ! (i - 1))) = 1 then 0
            else to_double (to_double (at' - mTime (keys ! (i - 1)))
                   / to_double (mTime (keys ! i) - mTime (keys ! (i - 1)))))"
    by (simp add: interpolation_factor_def key_interval_def)
  note e = evaluateVectorAt_between [OF assms(1-3)]
  have f: "to_double (mTime (keys ! i) - mTime (keys ! (i - 1))) = 1 \<longrightarrow>
            interpolation_factor keys at' i = 0
            \<and> (float_vector (mValue (keys ! (i - 1))) \<longrightarrow>
                 evaluateVectorAt keys keyCount at' = Some (mValue (keys ! (i - 1))))"
    by (simp add: e interpolation_factor_def key_interval_def vlerp_zero)
  note g = evaluateQuaternionAt_between [OF assms(4-6), of Interpolate]
  have h: "to_double (mTime (rots ! k) - mTime (rots ! (k - 1))) = 1 \<longrightarrow>
            evaluateQuaternionAt Interpolate rots rotCount at' =
              Some (Interpolate (mValue (rots ! (k - 1))) (mValue (rots ! k)) 0)"
    by (simp add: g interpolation_factor_def key_interval_def to_float_zero)
  have d1: "is_double (mTime (keys ! (i - 1))) \<and> is_double (mTime (keys ! i)) \<longrightarrow>
            to_double (mTime (keys ! i) - mTime (keys ! (i - 1))) \<noteq> 0"
    using key_times_distinct [OF assms(1-3)] double_difference_nonzero by blast
  have d2: "is_double (mTime (rots ! (k - 1))) \<and> is_double (mTime (rots ! k)) \<longrightarrow>
            to_double (mTime (rots ! k) - mTime (rots ! (k - 1))) \<noteq> 0"
    using key_times_distinct [OF assms(4-6)] double_difference_nonzero by blast
  show ?thesis using a b c e f g h d1 d2 by blast
qed

lemma to_double_near_one:
  assumes "1 \<le> x" "x < 2"
  shows "to_double x = of_int (round_half_even (x * 2 ^ 52)) / 2 ^ 52"
proof -
  have x0: "x \<noteq> 0" "0 < x" using assms(1) by simp_all
  have "0 \<le> log 2 x" using assms(1) by simp
  moreover have "log 2 x < 1" using assms x0 by simp
  ultimately have "\<lfloor>log 2 x\<rfloor> = 0" by (simp add: floor_eq_iff)
  then have e: "max (- 1022) \<lfloor>log 2 \<bar>x\<bar>\<rfloor> = 0" using x0 by simp
  have u: "(2::real) powr of_int (0 - int 53 + 1) = 1 / 2 ^ 52"
    by (simp add: powr_minus_divide)
  show ?thesis
    unfolding to_double_def round_ieee_def Let_def e u using x0 by simp
qed

lemma tenth_interval:
  "to_double (4953959590107546 / 2 ^ 52 - 3602879701896397 / 2 ^ 55) = 1"
proof -
  let ?x = "4953959590107546 / 2 ^ 52 - 3602879701896397 / 2 ^ 55 :: real"
  have x: "?x = 1 + 3 / 2 ^ 55" by simp
  have r: "?x * 2 ^ 52 = of_int (2 ^ 52) + 3 / 8" by simp
  have "\<lfloor>?x * 2 ^ 52\<rfloor> = 2 ^ 52" unfolding r by (simp add: floor_eq_iff)
  then have "round_half_even (?x * 2 ^ 52) = 2 ^ 52"
    unfolding round_half_even_def Let_def by (simp add: r)
  moreover have "1 \<le> ?x" "?x < 2" by (simp_all add: x)
  ultimately show ?thesis by (simp only: to_double_near_one) simp
qed

lemma tenth_keys_first:
  "first_key_at_or_after tenth_keys 2 (5404319552844595 / 2 ^ 53) 1"
  by (simp add: first_key_at_or_after_def tenth_keys_def)

lemma ten_tick_rotations_first:
  "first_key_at_or_after ten_tick_rotations 2 (5404319552844595 / 2 ^ 53) 1"
  by (simp add: first_key_at_or_after_def ten_tick_rotations_def)

theorem interpolation_factor_between_keys_witness:
  "findStartValue tenth_keys 2 (5404319552844595 / 2 ^ 53) 0 = Some (0, 0)
   \<and> evaluateVectorAt tenth_keys 2 (5404319552844595 / 2 ^ 53) = Some (Vec3 1 2 3)
   \<and> findStartValue ten_tick_rotations 2 (5404319552844595 / 2 ^ 53) 0
       = Some (0, interpolation_factor ten_tick_rotations (5404319552844595 / 2 ^ 53) 1)
   \<and> evaluateQuaternionAt nearest_key ten_tick_rotations 2 (5404319552844595 / 2 ^ 53)
       = Some (Quat 1 0 0 0)
   \<and> is_double (3602879701896397 / 2 ^ 55) \<and> is_double (4953959590107546 / 2 ^ 52)
   \<and> to_double (4953959590107546 / 2 ^ 52 - 3602879701896397 / 2 ^ 55) \<noteq> 0"
proof -
  have l1: "2 = length tenth_keys" by (simp add: tenth_keys_def)
  have l2: "2 = length ten_tick_rotations" by (simp add: ten_tick_rotations_def)
  have one: "to_double (mTime (tenth_keys ! 1) - mTime (tenth_keys ! (1 - 1))) = 1"
    using tenth_interval by (simp add: tenth_keys_def)
  have fv: "float_vector (mValue (tenth_keys ! (1 - 1)))"
    by (simp add: tenth_keys_def float_vector_def is_float_def to_float_numeral to_float_one)
  have v: "mValue (tenth_keys ! (1 - 1)) = Vec3 1 2 3" by (simp add: tenth_keys_def)
  have q: "mValue (ten_tick_rotations ! (1 - 1)) = Quat 1 0 0 0" by (simp add: ten_tick_rotations_def)
  note w = interpolation_factor_between_keys
    [OF l1 tenth_keys_first _ l2 ten_tick_rotations_first, of nearest_key]
  have a: "findStartValue tenth_keys 2 (5404319552844595 / 2 ^ 53) 0 = Some (0, 0)"
    and b: "evaluateVectorAt tenth_keys 2 (5404319552844595 / 2 ^ 53) = Some (Vec3 1 2 3)"
    and c: "findStartValue ten_tick_rotations 2 (5404319552844595 / 2 ^ 53) 0
       = Some (0, interpolation_factor ten_tick_rotations (5404319552844595 / 2 ^ 53) 1)"
    using w one fv v by (simp_all add: vlerp_zero)
  have d: "evaluateQuaternionAt nearest_key ten_tick_rotations 2 (5404319552844595 / 2 ^ 53)
       = Some (Quat 1 0 0 0)"
    using w q by (simp add: nearest_key_def)
  have d1: "is_double (3602879701896397 / 2 ^ 55)"
    using is_double_fraction [of 3602879701896397 55] by simp
  have d2: "is_double (4953959590107546 / 2 ^ 52)"
    using is_double_fraction [of 4953959590107546 52] by simp
  have t: "mTime (tenth_keys ! (1 - 1)) = 3602879701896397 / 2 ^ 55"
    "mTime (tenth_keys ! 1) = 4953959590107546 / 2 ^ 52"
    by (simp_all add: tenth_keys_def)
  from w have "is_double (mTime (tenth_keys ! (1 - 1))) \<and> is_double (mTime (tenth_keys ! 1)) \<longrightarrow>
            to_double (mTime (tenth_keys ! 1) - mTime (tenth_keys ! (1 - 1))) \<noteq> 0"
    by simp
  then have e: "to_double (4953959590107546 / 2 ^ 52 - 3602879701896397 / 2 ^ 55) \<noteq> 0"
    unfolding t using d1 d2 by blast
  show ?thesis using a b c d d1 d2 e by blast
qed


section \<open>Keyframe evaluation at the ends and in range\<close>

lemma sorted_before_last:
  assumes "sorted (map mTime keys)" "keys \<noteq> []" "mTime (last keys) < at'"
  shows "\<forall>j<length keys. mTime (keys ! j) < at'"
proof (intro allI impI)
  fix j assume j: "j < length keys"
  then have "j \<le> length keys - 1" by simp
  then have "map mTime keys ! j \<le> map mTime keys ! (length keys - 1)"
    using assms(1) j by (intro sorted_nth_mono) simp_all
  then have "mTime (keys ! j) \<le> mTime (last keys)"
    using j assms(2) by (simp add: last_conv_nth)
  then show "mTime (keys ! j) < at'" using assms(3) by simp
qed

lemma evaluateVectorAt_beyond:
  assumes "keyCount = length keys" "keys \<noteq> []" "\<forall>j<length keys. mTime (keys ! j) < at'"
  shows "evaluateVectorAt keys keyCount at' = Some (mValue (last keys))"
proof -
  have f: "findStartValue keys keyCount at' 0 = Some (keyCount, 0)"
    using assms by (intro findStartValue_beyond) simp_all
  show ?thesis
    unfolding evaluateVectorAt_def f using assms(1,2)
    by (auto simp: at_index_def last_conv_nth)
qed

lemma evaluateQuaternionAt_beyond:
  assumes "keyCount = length keys" "keys \<noteq> []" "\<forall>j<length keys. mTime (keys ! j) < at'"
  shows "evaluateQuaternionAt Interpolate keys keyCount at' = Some (mValue (last keys))"
proof -
  have f: "findStartValue keys keyCount at' 0 = Some (keyCount, 0)"
    using assms by (intro findStartValue_beyond) simp_all
  show ?thesis
    unfolding evaluateQuaternionAt_def f using assms(1,2)
    by (auto simp: at_index_def last_conv_nth)
qed

text \<open>
  Claim C8, amended. For every non-empty key sequence with non-decreasing times and
  every query time strictly after the last key's time, the vector and the quaternion
  evaluation return the last key's value itself: nothing is interpolated or
  extrapolated.
\<close>

theorem evaluate_after_last_key:
  assumes "keyCount = length keys" "keys \<noteq> []"
      "sorted (map mTime keys)" "mTime (last keys) < at'"
    and "rotCount = length rots" "rots \<noteq> []"
      "sorted (map mTime rots)" "mTime (last rots) < at'"
  shows "evaluateVectorAt keys keyCount at' = Some (mValue (last keys))
       \<and> evaluateQuaternionAt Interpolate rots rotCount at' = Some (mValue (last rots))"
  using evaluateVectorAt_beyond [OF assms(1,2) sorted_before_last [OF assms(3,2,4)]]
    evaluateQuaternionAt_beyond [OF assms(5,6) sorted_before_last [OF assms(7,6,8)]]
  by simp

theorem evaluate_after_last_key_witness:
  "evaluateVectorAt ten_tick_keys 2 11 = Some (Vec3 2 4 6)
   \<and> evaluateQuaternionAt nearest_key ten_tick_rotations 2 11 = Some (Quat 0 1 0 0)"
  using evaluate_after_last_key [of 2 ten_tick_keys 11 2 ten_tick_rotations nearest_key]
  by (simp add: ten_tick_keys_def ten_tick_rotations_def)

text \<open>
  Claim C8 as stated fails at a query time equal to the last key's time: the last key is
  then the first key at or after the query, the search steps back to the key before
  it, and with an interval of exactly 1 the factor is 0. For the keys \<open>(0, (0,0,0))\<close>
  and \<open>(1, (1,0,0))\<close> the evaluation at 1 is \<open>(0,0,0)\<close>, not the last key's value.
\<close>

theorem evaluate_at_last_key_counterexample:
  "sorted (map mTime unit_step_keys) \<and> mTime (last unit_step_keys) = 1
   \<and> mValue (last unit_step_keys) = Vec3 1 0 0
   \<and> evaluateVectorAt unit_step_keys 2 1 = Some (Vec3 0 0 0)
   \<and> evaluateVectorAt unit_step_keys 2 1 \<noteq> Some (mValue (last unit_step_keys))"
proof -
  have "first_key_at_or_after unit_step_keys 2 1 1"
    by (simp add: first_key_at_or_after_def unit_step_keys_def)
  from evaluateVectorAt_between [OF _ this]
  show ?thesis
    by (simp add: interpolation_factor_def key_interval_def unit_step_keys_def
        to_double_one to_float_zero to_float_one)
qed

lemma evaluateVectorAt_defined:
  assumes "keyCount = length keys"
  shows "\<exists>v. evaluateVectorAt keys keyCount at' = Some v"
proof -
  have le: "keyCount \<le> length keys" using assms by simp
  consider "keyCount < 2" | "2 \<le> keyCount" by linarith
  then show ?thesis
  proof cases
    case 1
    then have "keyCount = 0 \<or> keyCount = 1" by linarith
    then show ?thesis using assms by (auto simp: evaluateVectorAt_def at_index_def)
  next
    case 2
    from findStartValue_cases [OF le, of at' 0]
    show ?thesis
    proof (elim disjE exE conjE)
      assume f: "findStartValue keys keyCount at' 0 = Some (keyCount, 0)"
      show ?thesis unfolding evaluateVectorAt_def f using 2 assms by (auto simp: at_index_def)
    next
      assume f: "findStartValue keys keyCount at' 0 = Some (0, 0)"
      show ?thesis unfolding evaluateVectorAt_def f using 2 assms by (auto simp: at_index_def)
    next
      fix i assume i: "0 < i" "i < keyCount"
        and f: "findStartValue keys keyCount at' 0 = Some (i - 1, interpolation_factor keys at' i)"
      show ?thesis unfolding evaluateVectorAt_def f using 2 i assms by (auto simp: at_index_def)
    qed
  qed
qed

lemma evaluateQuaternionAt_defined:
  assumes "keyCount = length keys"
  shows "\<exists>v. evaluateQuaternionAt Interpolate keys keyCount at' = Some v"
proof -
  have le: "keyCount \<le> length keys" using assms by simp
  consider "keyCount < 2" | "2 \<le> keyCount" by linarith
  then show ?thesis
  proof cases
    case 1
    then have "keyCount = 0 \<or> keyCount = 1" by linarith
    then show ?thesis using assms by (auto simp: evaluateQuaternionAt_def at_index_def)
  next
    case 2
    from findStartValue_cases [OF le, of at' 0]
    show ?thesis
    proof (elim disjE exE conjE)
      assume f: "findStartValue keys keyCount at' 0 = Some (keyCount, 0)"
      show ?thesis unfolding evaluateQuaternionAt_def f using 2 assms by (auto simp: at_index_def)
    next
      assume f: "findStartValue keys keyCount at' 0 = Some (0, 0)"
      show ?thesis unfolding evaluateQuaternionAt_def f using 2 assms by (auto simp: at_index_def)
    next
      fix i assume i: "0 < i" "i < keyCount"
        and f: "findStartValue keys keyCount at' 0 = Some (i - 1, interpolation_factor keys at' i)"
      show ?thesis unfolding evaluateQuaternionAt_def f using 2 i assms by (auto simp: at_index_def)
    qed
  qed
qed

lemma findStartValue_index_range:
  assumes "keyCount = length keys" "2 \<le> keyCount"
  shows "\<exists>startValue lerp. findStartValue keys keyCount at' 0 = Some (startValue, lerp)
           \<and> (startValue = keyCount \<or> startValue + 1 \<le> keyCount - 1)"
proof -
  have le: "keyCount \<le> length keys" using assms by simp
  from findStartValue_cases [OF le, of at' 0]
  show ?thesis
  proof (elim disjE exE conjE)
    assume "findStartValue keys keyCount at' 0 = Some (keyCount, 0)"
    then show ?thesis by simp
  next
    assume "findStartValue keys keyCount at' 0 = Some (0, 0)"
    then show ?thesis using assms(2) by simp
  next
    fix i assume "0 < i" "i < keyCount"
      and "findStartValue keys keyCount at' 0 = Some (i - 1, interpolation_factor keys at' i)"
    then show ?thesis by auto
  qed
qed

text \<open>
  Claim C10. For a key array of length \<open>keyCount\<close> and every query time, the vector
  and the quaternion evaluation read the array only inside \<open>[0, keyCount)\<close>: every read
  of the model is checked against the array's length and the evaluations never fail.
  With at least two keys the search returns either \<open>keyCount\<close>, which the evaluations
  test before they index, or an index with \<open>startValue + 1 \<le> keyCount - 1\<close>.
\<close>

theorem evaluation_reads_in_range:
  assumes "keyCount = length keys" and "rotCount = length rots"
  shows "(\<exists>v. evaluateVectorAt keys keyCount at' = Some v)
       \<and> (\<exists>q. evaluateQuaternionAt Interpolate rots rotCount at' = Some q)
       \<and> (2 \<le> keyCount \<longrightarrow>
            (\<exists>startValue lerp. findStartValue keys keyCount at' 0 = Some (startValue, lerp)
               \<and> (startValue = keyCount \<or> startValue + 1 \<le> keyCount - 1)))
       \<and> (2 \<le> rotCount \<longrightarrow>
            (\<exists>startValue lerp. findStartValue rots rotCount at' 0 = Some (startValue, lerp)
               \<and> (startValue = rotCount \<or> startValue + 1 \<le> rotCount - 1)))"
  using evaluateVectorAt_defined [OF assms(1)] evaluateQuaternionAt_defined [OF assms(2)]
    findStartValue_index_range [OF assms(1)] findStartValue_index_range [OF assms(2)]
  by blast

theorem evaluation_reads_in_range_witness:
  "(\<exists>v. evaluateVectorAt ten_tick_keys 2 5 = Some v)
   \<and> (\<exists>q. evaluateQuaternionAt nearest_key ten_tick_rotations 2 5 = Some q)
   \<and> (\<exists>startValue lerp. findStartValue ten_tick_keys 2 5 0 = Some (startValue, lerp)
         \<and> (startValue = 2 \<or> startValue + 1 \<le> 2 - 1))
   \<and> (\<exists>startValue lerp. findStartValue ten_tick_rotations 2 5 0 = Some (startValue, lerp)
         \<and> (startValue = 2 \<or> startValue + 1 \<le> 2 - 1))"
  using evaluation_reads_in_range [of 2 ten_tick_keys 2 ten_tick_rotations 5 nearest_key]
  by (simp add: ten_tick_keys_def ten_tick_rotations_def)


section \<open>The frame table of a resampled clip\<close>

lemma for_each_append:
  "for_each body (xs @ ys) s =
     (case for_each body xs s of None \<Rightarrow> None | Some s' \<Rightarrow> for_each body ys s')"
  by (induction xs arbitrary: s) (auto split: option.splits)

lemma for_each_upt_invariant:
  assumes "for_each body [0..<n] s = Some s'" and "P 0 s"
    and "\<And>k t t'. k < n \<Longrightarrow> P k t \<Longrightarrow> body k t = Some t' \<Longrightarrow> P (Suc k) t'"
  shows "P n s'"
  using assms
proof (induction n arbitrary: s')
  case 0
  then show ?case by simp
next
  case (Suc n)
  from Suc.prems(1) obtain t where t: "for_each body [0..<n] s = Some t" "body n t = Some s'"
    by (auto simp: for_each_append split: option.splits)
  have "P n t"
    using t(1) Suc.prems(2)
  proof (rule Suc.IH)
    fix k u u' assume "k < n" "P k u" "body k u = Some u'"
    then show "P (Suc k) u'" using Suc.prems(3) [of k u u'] by simp
  qed
  then show ?case using Suc.prems(3) [of n t s'] t(2) by simp
qed

lemma those_map_Some:
  "those (map f xs) = Some ys \<Longrightarrow>
   length ys = length xs \<and> (\<forall>i<length xs. f (xs ! i) = Some (ys ! i))"
proof (induction xs arbitrary: ys)
  case Nil
  then show ?case by simp
next
  case (Cons x xs)
  from Cons.prems obtain y zs where y: "f x = Some y" "those (map f xs) = Some zs" "ys = y # zs"
    by (auto split: option.splits)
  from Cons.IH [OF y(2)] y(1,3) show ?case
    by (auto simp: nth_Cons split: nat.splits)
qed

lemma those_map_defined:
  "(\<forall>x\<in>set xs. \<exists>y. f x = Some y) \<Longrightarrow> \<exists>ys. those (map f xs) = Some ys"
  by (induction xs) auto

lemma concat_nth_uniform:
  "list_all (\<lambda>row. length row = m) A \<Longrightarrow> f < length A \<Longrightarrow> b < m \<Longrightarrow>
   concat A ! (f * m + b) = A ! f ! b"
proof (induction A arbitrary: f)
  case Nil
  then show ?case by simp
next
  case (Cons row A)
  show ?case
  proof (cases f)
    case 0
    then show ?thesis using Cons.prems by (simp add: nth_append)
  next
    case (Suc g)
    then have "concat A ! (g * m + b) = A ! g ! b"
      using Cons.prems by (intro Cons.IH) simp_all
    then show ?thesis using Suc Cons.prems by (simp add: nth_append)
  qed
qed

lemma concat_length_uniform:
  "list_all (\<lambda>row. length row = m) A \<Longrightarrow> length (concat A) = length A * m"
  by (induction A) simp_all

lemma frame_table_replicate: "frame_table (replicate n (replicate m x)) n m"
  by (simp add: frame_table_def list_all_length)

lemma store_frame_table:
  assumes "store_frame A f b fd = Some A'" "frame_table A n m"
  shows "frame_table A' n m \<and> f < n \<and> b < m \<and> A' ! f ! b = fd
       \<and> (\<forall>g c. (g \<noteq> f \<or> c \<noteq> b) \<longrightarrow> A' ! g ! c = A ! g ! c)"
proof -
  have f: "f < length A" "b < length (A ! f)" and A': "A' = A[f := (A ! f)[b := fd]]"
    using assms(1) by (auto simp: store_frame_def split: if_splits)
  have rows: "\<forall>g<length A. length (A ! g) = m" and len: "length A = n"
    using assms(2) by (auto simp: frame_table_def list_all_length)
  have "frame_table A' n m"
    using rows len f by (auto simp: A' frame_table_def list_all_length nth_list_update)
  moreover have "A' ! f ! b = fd" using f by (simp add: A')
  moreover have "\<forall>g c. (g \<noteq> f \<or> c \<noteq> b) \<longrightarrow> A' ! g ! c = A ! g ! c"
    using f by (auto simp: A' nth_list_update)
  ultimately show ?thesis using f rows len by auto
qed

lemma populate_channel_body:
  "(do {
      (origin, rotation) \<leftarrow> sample_bone Interpolate animation settings bone nodeAnim frame;
      store_frame T frame boneIndex
        \<lparr>position = vscale origin (mFixedPointScale settings), rotation = rotation\<rparr>
    }) =
   (do {
      fd \<leftarrow> channel_frame Interpolate animation settings bone nodeAnim frame;
      store_frame T frame boneIndex fd
    })"
  by (cases "sample_bone Interpolate animation settings bone nodeAnim frame")
     (auto simp: channel_frame_def)

lemma populate_channel_result:
  assumes "populate_channel Interpolate animation settings bone nodeAnim b n A = Some A'"
    and "frame_table A n m"
  shows "frame_table A' n m
       \<and> (\<forall>f<n. channel_frame Interpolate animation settings bone nodeAnim f = Some (A' ! f ! b))
       \<and> (\<forall>f c. c \<noteq> b \<longrightarrow> A' ! f ! c = A ! f ! c)"
proof -
  let ?body = "\<lambda>frame T. do {
      fd \<leftarrow> channel_frame Interpolate animation settings bone nodeAnim frame;
      store_frame T frame b fd }"
  let ?P = "\<lambda>k T. frame_table T n m
       \<and> (\<forall>f<k. channel_frame Interpolate animation settings bone nodeAnim f = Some (T ! f ! b))
       \<and> (\<forall>f c. c \<noteq> b \<longrightarrow> T ! f ! c = A ! f ! c)"
  have run: "for_each ?body [0..<n] A = Some A'"
    using assms(1) by (simp add: populate_channel_def populate_channel_body)
  have "?P n A'"
  proof (rule for_each_upt_invariant [where P = ?P, OF run])
    show "?P 0 A" using assms(2) by simp
  next
    fix k T T' assume k: "k < n" and P: "?P k T" and step: "?body k T = Some T'"
    from step obtain fd where fd: "channel_frame Interpolate animation settings bone nodeAnim k = Some fd"
        "store_frame T k b fd = Some T'"
      by (auto simp: bind_eq_Some_conv)
    from P have tab: "frame_table T n m" by simp
    note st = store_frame_table [OF fd(2) tab]
    have "\<forall>f<Suc k. channel_frame Interpolate animation settings bone nodeAnim f = Some (T' ! f ! b)"
    proof (intro allI impI)
      fix f assume "f < Suc k"
      then consider "f = k" | "f < k" by linarith
      then show "channel_frame Interpolate animation settings bone nodeAnim f = Some (T' ! f ! b)"
      proof cases
        case 1
        then show ?thesis using st fd(1) by simp
      next
        case 2
        then have "T' ! f ! b = T ! f ! b" using st by simp
        then show ?thesis using P 2 by simp
      qed
    qed
    moreover have "\<forall>f c. c \<noteq> b \<longrightarrow> T' ! f ! c = A ! f ! c"
      using st P by simp
    ultimately show "?P (Suc k) T'" using st by simp
  qed
  then show ?thesis by simp
qed

lemma populate_bone_result:
  assumes "populate_bone Interpolate animation bones settings n b A = Some A'"
    and "frame_table A n (length bones)"
  shows "b < length bones \<and> frame_table A' n (length bones)
       \<and> (\<forall>f c. c \<noteq> b \<longrightarrow> A' ! f ! c = A ! f ! c)
       \<and> (find_channel animation (bones ! b) = None \<longrightarrow> A' = A)
       \<and> (\<forall>nodeAnim. find_channel animation (bones ! b) = Some nodeAnim \<longrightarrow>
            (\<forall>f<n. channel_frame Interpolate animation settings (bones ! b) nodeAnim f
                      = Some (A' ! f ! b)))"
proof -
  have b: "b < length bones"
    using assms(1) by (auto simp: populate_bone_def at_index_def split: if_splits)
  show ?thesis
  proof (cases "find_channel animation (bones ! b)")
    case None
    then have "A' = A" using assms(1) b by (simp add: populate_bone_def at_index_def)
    then show ?thesis using None assms(2) b by simp
  next
    case (Some nodeAnim)
    then have "populate_channel Interpolate animation settings (bones ! b) nodeAnim b n A = Some A'"
      using assms(1) b by (simp add: populate_bone_def at_index_def)
    from populate_channel_result [OF this assms(2)] Some b show ?thesis by simp
  qed
qed

lemma populate_allFrameData_result:
  assumes "populate_allFrameData Interpolate animation bones settings count = Some A"
  shows "0 \<le> count \<and> frame_table A (nat count) (length bones)
       \<and> (\<forall>f<nat count. \<forall>b<length bones.
            bone_frame Interpolate animation settings (bones ! b) f = Some (A ! f ! b))"
proof -
  let ?n = "nat count" and ?m = "length bones"
  let ?A0 = "replicate ?n (replicate ?m FrameData_default)"
  have n0: "0 \<le> count"
    and run: "for_each (populate_bone Interpolate animation bones settings ?n) [0..<?m] ?A0 = Some A"
    using assms by (auto simp: populate_allFrameData_def init_allFrameData_def split: if_splits)
  let ?P = "\<lambda>k T. frame_table T ?n ?m
       \<and> (\<forall>f<?n. \<forall>b<k. bone_frame Interpolate animation settings (bones ! b) f = Some (T ! f ! b))
       \<and> (\<forall>f<?n. \<forall>b. k \<le> b \<and> b < ?m \<longrightarrow> T ! f ! b = FrameData_default)"
  have "?P ?m A"
  proof (rule for_each_upt_invariant [where P = ?P, OF run])
    show "?P 0 ?A0" by (simp add: frame_table_replicate)
  next
    fix k T T' assume k: "k < ?m" and P: "?P k T"
      and step: "populate_bone Interpolate animation bones settings ?n k T = Some T'"
    from P have tab: "frame_table T ?n ?m" by simp
    note r = populate_bone_result [OF step tab]
    have "\<forall>f<?n. \<forall>b<Suc k. bone_frame Interpolate animation settings (bones ! b) f = Some (T' ! f ! b)"
    proof (intro allI impI)
      fix f b assume f: "f < ?n" and "b < Suc k"
      then consider "b = k" | "b < k" by linarith
      then show "bone_frame Interpolate animation settings (bones ! b) f = Some (T' ! f ! b)"
      proof cases
        case 1
        show ?thesis
        proof (cases "find_channel animation (bones ! k)")
          case None
          then have "T' = T" using r by simp
          moreover have "T ! f ! k = FrameData_default" using P f k by simp
          ultimately show ?thesis using None 1 by (simp add: bone_frame_def)
        next
          case (Some nodeAnim)
          then show ?thesis using r f 1 by (simp add: bone_frame_def)
        qed
      next
        case 2
        then have "T' ! f ! b = T ! f ! b" using r by simp
        then show ?thesis using P 2 f by simp
      qed
    qed
    moreover have "\<forall>f<?n. \<forall>b. Suc k \<le> b \<and> b < ?m \<longrightarrow> T' ! f ! b = FrameData_default"
    proof (intro allI impI)
      fix f b assume f: "f < ?n" and b: "Suc k \<le> b \<and> b < ?m"
      then have "T' ! f ! b = T ! f ! b" using r by simp
      then show "T' ! f ! b = FrameData_default" using P f b by simp
    qed
    ultimately show "?P (Suc k) T'" using r by simp
  qed
  then show ?thesis using n0 by simp
qed


section \<open>The frame count and the packed frames\<close>

lemma trunc_real_of_int: "trunc_real (of_int k) = k"
  by (simp add: trunc_real_def)

lemma compute_nFrames_quotient:
  "compute_nFrames animation settings =
     (if aiAnimation.mTicksPerSecond animation = 0 then None
      else int_of_double (of_int \<lceil>frame_quotient animation settings\<rceil>))"
  by (simp add: compute_nFrames_def frame_quotient_def)

lemma int_of_double_of_int:
  "int_of_double (of_int k) = (if - (2 ^ 31) \<le> k \<and> k < 2 ^ 31 then Some k else None)"
  unfolding int_of_double_def trunc_real_of_int Let_def by (rule refl)

lemma compute_nFrames_Some:
  assumes "compute_nFrames animation settings = Some n"
  shows "aiAnimation.mTicksPerSecond animation \<noteq> 0
       \<and> n = \<lceil>frame_quotient animation settings\<rceil>"
proof -
  have r: "aiAnimation.mTicksPerSecond animation \<noteq> 0"
    using assms by (auto simp: compute_nFrames_quotient split: if_splits)
  then have "int_of_double (of_int \<lceil>frame_quotient animation settings\<rceil>) = Some n"
    using assms by (simp add: compute_nFrames_quotient)
  then have "n = \<lceil>frame_quotient animation settings\<rceil>"
    unfolding int_of_double_of_int by (simp split: if_splits)
  then show ?thesis using r by simp
qed

lemma compute_nFrames_defined:
  assumes "aiAnimation.mTicksPerSecond animation \<noteq> 0"
    and "- (2 ^ 31) \<le> \<lceil>frame_quotient animation settings\<rceil>"
    and "\<lceil>frame_quotient animation settings\<rceil> < 2 ^ 31"
  shows "compute_nFrames animation settings = Some \<lceil>frame_quotient animation settings\<rceil>"
  unfolding compute_nFrames_quotient int_of_double_of_int using assms by simp

lemma pack_frames_length:
  assumes "pack_frames A = Some packed" "frame_table A n m"
  shows "length packed = n * m"
  using those_map_Some [OF assms(1) [unfolded pack_frames_def]] assms(2)
    concat_length_uniform [of m A]
  by (simp add: frame_table_def del: length_concat)

lemma pack_frames_nth:
  assumes "pack_frames A = Some packed" "frame_table A n m" "f < n" "b < m"
  shows "pack_frame (A ! f ! b) = Some (packed ! (f * m + b)) \<and> f * m + b < length packed"
proof -
  note t = those_map_Some [OF assms(1) [unfolded pack_frames_def]]
  have rows: "list_all (\<lambda>row. length row = m) A" and len: "length A = n"
    using assms(2) by (simp_all add: frame_table_def)
  have "f * m + b < n * m"
  proof -
    have "f * m + b < f * m + m" using assms(4) by simp
    also have "\<dots> = Suc f * m" by simp
    also have "\<dots> \<le> n * m" using assms(3) by (intro mult_le_mono1) simp
    finally show ?thesis .
  qed
  then have lt: "f * m + b < length (concat A)"
    using rows len concat_length_uniform [of m A] by (simp del: length_concat)
  then have "pack_frame (concat A ! (f * m + b)) = Some (packed ! (f * m + b))"
    using t by simp
  moreover have "concat A ! (f * m + b) = A ! f ! b"
    using rows len assms(3,4) by (intro concat_nth_uniform) simp_all
  ultimately show ?thesis using lt t by simp
qed

lemma generateanimationV2_Some:
  assumes "generateanimationV2 Interpolate animation bones settings = Some clip"
  shows "\<exists>A. compute_nFrames animation settings = Some (nFrames clip)
           \<and> populate_allFrameData Interpolate animation bones settings (nFrames clip) = Some A
           \<and> pack_frames A = Some (frames clip)
           \<and> nBones clip = length bones
           \<and> ticksPerSecond clip = DisplayListSettings.mTicksPerSecond settings
           \<and> clipName clip = aiAnimation.mName animation @ ''_clip''
           \<and> dataName clip = aiAnimation.mName animation @ ''_data''"
  using assms by (auto simp: generateanimationV2_def bind_eq_Some_conv)

text \<open>
  Claim C1, amended. Whenever a clip is resampled, its frame count is the ceiling of
  \<open>sourceDurationTicks * targetTicksPerSecond / sourceTicksPerSecond\<close> as the \<open>double\<close>
  arithmetic gives it (the product rounded, then the quotient rounded); the count is
  not negative, and the frame data holds that many rows of one entry per bone. The
  count is at least 1 exactly when that double quotient is positive: nothing raises it
  to 1.
\<close>

theorem resampled_frame_count:
  assumes "generateanimationV2 Interpolate animation bones settings = Some clip"
  shows "nFrames clip = \<lceil>frame_quotient animation settings\<rceil>
       \<and> frame_quotient animation settings =
           to_double (to_double (mDuration animation
                                   * real (DisplayListSettings.mTicksPerSecond settings))
                      / aiAnimation.mTicksPerSecond animation)
       \<and> 0 \<le> nFrames clip
       \<and> length (frames clip) = nat (nFrames clip) * length bones
       \<and> (1 \<le> nFrames clip \<longleftrightarrow> 0 < frame_quotient animation settings)"
proof -
  from generateanimationV2_Some [OF assms] obtain A where
    n: "compute_nFrames animation settings = Some (nFrames clip)" and
    A: "populate_allFrameData Interpolate animation bones settings (nFrames clip) = Some A" and
    p: "pack_frames A = Some (frames clip)"
    by blast
  note c = compute_nFrames_Some [OF n]
  note r = populate_allFrameData_result [OF A]
  have "length (frames clip) = nat (nFrames clip) * length bones"
    using pack_frames_length [OF p] r by simp
  moreover have "1 \<le> nFrames clip \<longleftrightarrow> 0 < frame_quotient animation settings"
    using c by (simp add: less_ceiling_iff flip: zless_iff_Suc_zadd int_one_le_iff_zero_less)
  ultimately show ?thesis using c r by (simp add: frame_quotient_def)
qed

lemma short_of_float_zero: "short_of_float 0 = Some 0"
  by (simp add: short_of_float_def trunc_real_def)

lemma pack_frame_default:
  "pack_frame FrameData_default = Some \<lparr>posData = [0, 0, 0], rotData = [0, 0, 0]\<rparr>"
  by (simp add: pack_frame_def FrameData_default_def aiVector3D_default_def aiQuaternion_default_def
      quantize_position_def quantize_rotation_def short_of_float_zero to_float_zero)

lemma find_channel_None:
  "find_channel animation bone = None \<longleftrightarrow> GetName bone \<notin> set (map mNodeName (mChannels animation))"
  by (auto simp: find_channel_def find_None_iff)


section \<open>Clips without a matching channel\<close>

lemma for_each_unchanged:
  "(\<forall>x\<in>set xs. body x s = Some s) \<Longrightarrow> for_each body xs s = Some s"
  by (induction xs) simp_all

lemma those_map_const:
  "(\<forall>x\<in>set xs. f x = Some y) \<Longrightarrow> those (map f xs) = Some (replicate (length xs) y)"
  by (induction xs) simp_all

lemma populate_allFrameData_no_channel:
  assumes "\<forall>bone\<in>set bones. find_channel animation bone = None" "0 \<le> n"
  shows "populate_allFrameData Interpolate animation bones settings n =
           Some (replicate (nat n) (replicate (length bones) FrameData_default))"
proof -
  let ?A = "replicate (nat n) (replicate (length bones) FrameData_default)"
  have "\<forall>b\<in>set [0..<length bones].
          populate_bone Interpolate animation bones settings (nat n) b ?A = Some ?A"
    using assms(1) by (simp add: populate_bone_def at_index_def)
  then have "for_each (populate_bone Interpolate animation bones settings (nat n))
               [0..<length bones] ?A = Some ?A"
    by (rule for_each_unchanged)
  then show ?thesis using assms(2) by (simp add: populate_allFrameData_def init_allFrameData_def)
qed

lemma pack_frames_default:
  "pack_frames (replicate n (replicate m FrameData_default)) =
     Some (replicate (n * m) \<lparr>posData = [0, 0, 0], rotData = [0, 0, 0]\<rparr>)"
proof -
  let ?A = "replicate n (replicate m FrameData_default)"
  have "\<forall>x\<in>set (concat ?A). pack_frame x = Some \<lparr>posData = [0, 0, 0], rotData = [0, 0, 0]\<rparr>"
    by (auto simp: pack_frame_default)
  from those_map_const [OF this] concat_length_uniform [of m ?A]
  show ?thesis by (simp add: pack_frames_def list_all_length del: length_concat)
qed

lemma generateanimationV2_no_channel:
  assumes "\<forall>bone\<in>set bones. find_channel animation bone = None"
    and "compute_nFrames animation settings = Some n" "0 \<le> n"
  shows "generateanimationV2 Interpolate animation bones settings =
     Some \<lparr>dataName = aiAnimation.mName animation @ ''_data'',
           frames = replicate (nat n * length bones) \<lparr>posData = [0, 0, 0], rotData = [0, 0, 0]\<rparr>,
           clipName = aiAnimation.mName animation @ ''_clip'',
           nFrames = n,
           nBones = length bones,
           ticksPerSecond = DisplayListSettings.mTicksPerSecond settings\<rparr>"
  by (simp add: generateanimationV2_def assms(2)
      populate_allFrameData_no_channel [OF assms(1,3)] pack_frames_default)

lemma hundred_tick_no_channel:
  "\<forall>bone\<in>set example_bones. find_channel hundred_tick_clip bone = None"
  by (simp add: example_bones_def hundred_tick_clip_def find_channel_def)

lemma to_double_two_thirds: "to_double (2000 / 30) = 4691249611844267 / 2 ^ 46"
proof -
  have f: "\<lfloor>(2000 / 30 :: real) * 2 ^ 46\<rfloor> = 4691249611844266"
    by (simp add: floor_eq_iff)
  have "round_half_even ((2000 / 30 :: real) * 2 ^ 46) = 4691249611844267"
    unfolding round_half_even_def Let_def f by simp
  then show ?thesis using to_double_binade [of 6 "2000 / 30"] by simp
qed

lemma to_double_two_fifths: "to_double (3602879701896397 / 2 ^ 53 * 30) = 12"
proof -
  have f: "\<lfloor>(3602879701896397 / 2 ^ 53 * 30 :: real) * 2 ^ 49\<rfloor> = 6755399441055744"
    by (simp add: floor_eq_iff)
  have "round_half_even ((3602879701896397 / 2 ^ 53 * 30 :: real) * 2 ^ 49) = 6755399441055744"
    unfolding round_half_even_def Let_def f by simp
  then show ?thesis using to_double_binade [of 3 "3602879701896397 / 2 ^ 53 * 30"] by simp
qed

lemma two_fifths_exact_ceiling: "\<lceil>3602879701896397 / 2 ^ 53 * 30 :: real\<rceil> = 13"
  by (simp add: ceiling_eq_iff)

lemma hundred_tick_quotient:
  "frame_quotient hundred_tick_clip example_settings = 4691249611844267 / 2 ^ 46"
proof -
  have a: "mDuration hundred_tick_clip
             * real (DisplayListSettings.mTicksPerSecond example_settings) = 2000"
    by (simp add: hundred_tick_clip_def example_settings_def)
  have b: "aiAnimation.mTicksPerSecond hundred_tick_clip = 30"
    by (simp add: hundred_tick_clip_def)
  have c: "to_double 2000 = 2000" by (simp add: to_double_numeral)
  show ?thesis unfolding frame_quotient_def a b c by (rule to_double_two_thirds)
qed

lemma hundred_tick_ceiling: "\<lceil>frame_quotient hundred_tick_clip example_settings\<rceil> = 67"
  unfolding hundred_tick_quotient by (simp add: ceiling_eq_iff)

lemma hundred_tick_nFrames: "compute_nFrames hundred_tick_clip example_settings = Some 67"
proof -
  have r: "aiAnimation.mTicksPerSecond hundred_tick_clip \<noteq> 0"
    by (simp add: hundred_tick_clip_def)
  from compute_nFrames_defined [OF r, of example_settings]
  show ?thesis by (simp add: hundred_tick_ceiling)
qed

text \<open>
  The rounding of the product decides the count: for a clip whose duration is the double
  nearest to 0.4, at 1 tick per second, resampled at 30 ticks per second, the product
  rounds to 12 and the clip has 12 frames, where the exact quotient has ceiling 13.
\<close>

lemma two_fifths_nFrames:
  "compute_nFrames two_fifths_clip thirty_tick_settings = Some 12
   \<and> \<lceil>mDuration two_fifths_clip
         * real (DisplayListSettings.mTicksPerSecond thirty_tick_settings)
         / aiAnimation.mTicksPerSecond two_fifths_clip\<rceil> = 13"
proof -
  have a: "mDuration two_fifths_clip
             * real (DisplayListSettings.mTicksPerSecond thirty_tick_settings)
           = 3602879701896397 / 2 ^ 53 * 30"
    by (simp add: two_fifths_clip_def thirty_tick_settings_def)
  have b: "aiAnimation.mTicksPerSecond two_fifths_clip = 1"
    by (simp add: two_fifths_clip_def)
  have c: "to_double (12 / 1) = 12" by (simp add: to_double_numeral)
  have q: "frame_quotient two_fifths_clip thirty_tick_settings = 12"
    unfolding frame_quotient_def a b to_double_two_fifths by (rule c)
  have r: "aiAnimation.mTicksPerSecond two_fifths_clip \<noteq> 0" by (simp add: b)
  have n: "compute_nFrames two_fifths_clip thirty_tick_settings = Some 12"
    using compute_nFrames_defined [OF r, of thirty_tick_settings] by (simp add: q)
  have "\<lceil>mDuration two_fifths_clip
         * real (DisplayListSettings.mTicksPerSecond thirty_tick_settings)
         / aiAnimation.mTicksPerSecond two_fifths_clip\<rceil> = 13"
    unfolding a b using two_fifths_exact_ceiling by simp
  then show ?thesis using n by simp
qed

lemma hundred_tick_run:
  "generateanimationV2 Interpolate hundred_tick_clip example_bones example_settings =
     Some \<lparr>dataName = ''walk_data'',
           frames = replicate 134 \<lparr>posData = [0, 0, 0], rotData = [0, 0, 0]\<rparr>,
           clipName = ''walk_clip'', nFrames = 67, nBones = 2, ticksPerSecond = 20\<rparr>"
  using generateanimationV2_no_channel [OF hundred_tick_no_channel hundred_tick_nFrames, of Interpolate]
  by (simp add: hundred_tick_clip_def example_bones_def example_settings_def)

lemma zero_duration_run:
  "generateanimationV2 Interpolate zero_duration_clip example_bones example_settings =
     Some \<lparr>dataName = ''pose_data'', frames = [],
           clipName = ''pose_clip'', nFrames = 0, nBones = 2, ticksPerSecond = 20\<rparr>"
proof -
  have a: "\<forall>bone\<in>set example_bones. find_channel zero_duration_clip bone = None"
    by (simp add: example_bones_def zero_duration_clip_def find_channel_def)
  have q: "frame_quotient zero_duration_clip example_settings = 0"
    by (simp add: frame_quotient_def zero_duration_clip_def to_double_zero)
  have r: "aiAnimation.mTicksPerSecond zero_duration_clip \<noteq> 0"
    by (simp add: zero_duration_clip_def)
  have b: "compute_nFrames zero_duration_clip example_settings = Some 0"
    using compute_nFrames_defined [OF r, of example_settings] by (simp add: q)
  from generateanimationV2_no_channel [OF a b, of Interpolate]
  show ?thesis by (simp add: zero_duration_clip_def example_bones_def example_settings_def)
qed

theorem resampled_frame_count_witness:
  "generateanimationV2 nearest_key hundred_tick_clip example_bones example_settings =
     Some \<lparr>dataName = ''walk_data'',
           frames = replicate 134 \<lparr>posData = [0, 0, 0], rotData = [0, 0, 0]\<rparr>,
           clipName = ''walk_clip'', nFrames = 67, nBones = 2, ticksPerSecond = 20\<rparr>
   \<and> \<lceil>frame_quotient hundred_tick_clip example_settings\<rceil> = 67
   \<and> 0 < frame_quotient hundred_tick_clip example_settings"
proof -
  note r = hundred_tick_run [of nearest_key]
  from resampled_frame_count [OF r]
  have "nFrames \<lparr>dataName = ''walk_data'',
           frames = replicate 134 \<lparr>posData = [0, 0, 0], rotData = [0, 0, 0]\<rparr>,
           clipName = ''walk_clip'', nFrames = 67, nBones = 2, ticksPerSecond = 20\<rparr>
         = \<lceil>frame_quotient hundred_tick_clip example_settings\<rceil>"
    and "1 \<le> nFrames \<lparr>dataName = ''walk_data'',
           frames = replicate 134 \<lparr>posData = [0, 0, 0], rotData = [0, 0, 0]\<rparr>,
           clipName = ''walk_clip'', nFrames = 67, nBones = 2, ticksPerSecond = 20\<rparr>
         \<longleftrightarrow> 0 < frame_quotient hundred_tick_clip example_settings"
    by blast+
  then show ?thesis using r by simp
qed

text \<open>
  Claim C1 as stated fails for a clip of duration 0: the quotient is 0, its ceiling is 0,
  and the clip is emitted with 0 frames.
\<close>

theorem zero_duration_frame_count_counterexample:
  "generateanimationV2 nearest_key zero_duration_clip example_bones example_settings =
     Some \<lparr>dataName = ''pose_data'', frames = [],
           clipName = ''pose_clip'', nFrames = 0, nBones = 2, ticksPerSecond = 20\<rparr>
   \<and> \<not> 1 \<le> nFrames \<lparr>dataName = ''pose_data'', frames = [],
           clipName = ''pose_clip'', nFrames = 0, nBones = 2, ticksPerSecond = 20\<rparr>"
  by (simp add: zero_duration_run)


section \<open>Default poses and unmatched clips\<close>

text \<open>
  Claim C9. In the resampling of a clip, a bone that no channel of the clip names keeps,
  at every frame, the value-initialised entry: position \<open>(0, 0, 0)\<close> and the identity
  rotation. Its packed frame is three zero position shorts and three zero rotation
  shorts; the entry is defined, never left unwritten.
\<close>

theorem missing_channel_default_pose:
  assumes "generateanimationV2 Interpolate animation bones settings = Some clip"
    and "b < length bones"
    and "GetName (bones ! b) \<notin> set (map mNodeName (mChannels animation))"
    and "f < nat (nFrames clip)"
  shows "f * length bones + b < length (frames clip)
       \<and> frames clip ! (f * length bones + b) = \<lparr>posData = [0, 0, 0], rotData = [0, 0, 0]\<rparr>
       \<and> (\<exists>A. populate_allFrameData Interpolate animation bones settings (nFrames clip) = Some A
              \<and> A ! f ! b = \<lparr>position = Vec3 0 0 0, rotation = Quat 1 0 0 0\<rparr>)"
proof -
  from generateanimationV2_Some [OF assms(1)] obtain A where
    A: "populate_allFrameData Interpolate animation bones settings (nFrames clip) = Some A" and
    p: "pack_frames A = Some (frames clip)"
    by blast
  note r = populate_allFrameData_result [OF A]
  have none: "find_channel animation (bones ! b) = None"
    using assms(3) by (simp add: find_channel_None)
  have "bone_frame Interpolate animation settings (bones ! b) f = Some (A ! f ! b)"
    using r assms(2,4) by simp
  then have d: "A ! f ! b = FrameData_default"
    using none by (simp add: bone_frame_def)
  have tab: "frame_table A (nat (nFrames clip)) (length bones)" using r by simp
  from pack_frames_nth [OF p tab assms(4,2)] d
  have "f * length bones + b < length (frames clip)"
    and "frames clip ! (f * length bones + b) = \<lparr>posData = [0, 0, 0], rotData = [0, 0, 0]\<rparr>"
    by (simp_all add: pack_frame_default)
  moreover have "A ! f ! b = \<lparr>position = Vec3 0 0 0, rotation = Quat 1 0 0 0\<rparr>"
    using d by (simp add: FrameData_default_def aiVector3D_default_def aiQuaternion_default_def)
  ultimately show ?thesis using A by blast
qed

theorem missing_channel_default_pose_witness:
  "(66 :: nat) * length example_bones + 1 < 134
   \<and> replicate 134 \<lparr>posData = [0, 0, 0], rotData = [0, 0, 0]\<rparr> ! (66 * length example_bones + 1)
       = \<lparr>posData = [0, 0, 0 :: 16 word], rotData = [0, 0, 0 :: 16 word]\<rparr>
   \<and> (\<exists>A. populate_allFrameData nearest_key hundred_tick_clip example_bones example_settings 67 = Some A
          \<and> A ! 66 ! 1 = \<lparr>position = Vec3 0 0 0, rotation = Quat 1 0 0 0\<rparr>)"
proof -
  have b: "1 < length example_bones" by (simp add: example_bones_def)
  have c: "GetName (example_bones ! 1) \<notin> set (map mNodeName (mChannels hundred_tick_clip))"
    by (simp add: example_bones_def hundred_tick_clip_def)
  from missing_channel_default_pose [OF hundred_tick_run [of nearest_key] b c, of 66]
  show ?thesis by simp
qed

lemma length_headers:
  "length (concat (map (\<lambda>a. case t a of None \<Rightarrow> [] | Some y \<Rightarrow> [h a y]) xs))
     = length (filter (\<lambda>a. t a \<noteq> None) xs)"
  by (induction xs) (auto split: option.splits)

text \<open>
  Claim C2, amended. A clip none of whose channels names a bone is resampled like any
  other. When its frame count is defined and not negative it yields one clip record,
  with every frame of every bone the default pose, and this is not an error. When its
  frame count is not defined (a source rate of zero, or a count that is no \<open>int\<close>) or
  is negative, the resampling of the clip yields nothing: the conversion is undefined
  or the allocation of the frame table throws. Whenever the resampling of a scene
  returns, it has one clip record per source clip; only the header table of
  \<open>generateAnimationData\<close> leaves clips out, namely those that
  \<open>translateAnimationToSK\<close> rejects.
\<close>

theorem unmatched_clip_is_emitted:
  assumes "list_all (\<lambda>bone. find_channel animation bone = None) bones"
  shows "generateanimationV2 Interpolate animation bones settings =
           (case compute_nFrames animation settings of
              None \<Rightarrow> None
            | Some n \<Rightarrow>
                if n < 0 then None
                else Some \<lparr>dataName = aiAnimation.mName animation @ ''_data'',
                   frames = replicate (nat n * length bones)
                              \<lparr>posData = [0, 0, 0], rotData = [0, 0, 0]\<rparr>,
                   clipName = aiAnimation.mName animation @ ''_clip'',
                   nFrames = n,
                   nBones = length bones,
                   ticksPerSecond = DisplayListSettings.mTicksPerSecond settings\<rparr>)
       \<and> (\<forall>clips. generateAnimationDataV2 Interpolate scene bones settings = Some clips \<longrightarrow>
             length clips = length (mAnimations scene)
             \<and> (\<forall>i<length clips.
                   generateanimationV2 Interpolate (mAnimations scene ! i) bones settings
                     = Some (clips ! i)))
       \<and> length (generateAnimationData translateAnimationToSK formatAnimationChunks GetUniqueName
                    scene targetTicksPerSecond)
           = length (filter (\<lambda>a. translateAnimationToSK a \<noteq> None) (mAnimations scene))"
proof -
  have a: "\<forall>bone\<in>set bones. find_channel animation bone = None"
    using assms(1) by (simp add: list_all_iff)
  have "\<forall>clips. generateAnimationDataV2 Interpolate scene bones settings = Some clips \<longrightarrow>
             length clips = length (mAnimations scene)
             \<and> (\<forall>i<length clips.
                   generateanimationV2 Interpolate (mAnimations scene ! i) bones settings
                     = Some (clips ! i))"
  proof (intro allI impI)
    fix clips
    assume "generateAnimationDataV2 Interpolate scene bones settings = Some clips"
    from those_map_Some [OF this [unfolded generateAnimationDataV2_def]]
    show "length clips = length (mAnimations scene)
             \<and> (\<forall>i<length clips.
                   generateanimationV2 Interpolate (mAnimations scene ! i) bones settings
                     = Some (clips ! i))"
      by simp
  qed
  moreover have "length (generateAnimationData translateAnimationToSK formatAnimationChunks
                    GetUniqueName scene targetTicksPerSecond)
           = length (filter (\<lambda>a. translateAnimationToSK a \<noteq> None) (mAnimations scene))"
    unfolding generateAnimationData_def Let_def by (rule length_headers)
  moreover have "generateanimationV2 Interpolate animation bones settings =
           (case compute_nFrames animation settings of
              None \<Rightarrow> None
            | Some n \<Rightarrow>
                if n < 0 then None
                else Some \<lparr>dataName = aiAnimation.mName animation @ ''_data'',
                   frames = replicate (nat n * length bones)
                              \<lparr>posData = [0, 0, 0], rotData = [0, 0, 0]\<rparr>,
                   clipName = aiAnimation.mName animation @ ''_clip'',
                   nFrames = n,
                   nBones = length bones,
                   ticksPerSecond = DisplayListSettings.mTicksPerSecond settings\<rparr>)"
  proof (cases "compute_nFrames animation settings")
    case None
    then show ?thesis by (simp add: generateanimationV2_def)
  next
    case (Some n)
    show ?thesis
    proof (cases "n < 0")
      case True
      then show ?thesis
        using Some
        by (simp add: generateanimationV2_def populate_allFrameData_def init_allFrameData_def)
    next
      case False
      then have "0 \<le> n" by simp
      from generateanimationV2_no_channel [OF a Some this, of Interpolate]
      show ?thesis using Some False by simp
    qed
  qed
  ultimately show ?thesis by blast
qed


lemma lamp_scene_run:
  "generateAnimationDataV2 Interpolate lamp_scene example_bones example_settings =
     Some [\<lparr>dataName = ''walk_data'',
            frames = replicate 134 \<lparr>posData = [0, 0, 0], rotData = [0, 0, 0]\<rparr>,
            clipName = ''walk_clip'', nFrames = 67, nBones = 2, ticksPerSecond = 20\<rparr>]"
  by (simp add: generateAnimationDataV2_def lamp_scene_def hundred_tick_run)

theorem unmatched_clip_is_emitted_witness:
  "generateanimationV2 nearest_key hundred_tick_clip example_bones example_settings =
     Some \<lparr>dataName = ''walk_data'',
           frames = replicate 134 \<lparr>posData = [0, 0, 0], rotData = [0, 0, 0]\<rparr>,
           clipName = ''walk_clip'', nFrames = 67, nBones = 2, ticksPerSecond = 20\<rparr>
   \<and> length [\<lparr>dataName = ''walk_data'',
            frames = replicate 134 \<lparr>posData = [0, 0, 0 :: 16 word], rotData = [0, 0, 0 :: 16 word]\<rparr>,
            clipName = ''walk_clip'', nFrames = 67, nBones = 2, ticksPerSecond = 20\<rparr>]
       = length (mAnimations lamp_scene)
   \<and> length (generateAnimationData reject_all (\<lambda>name c. 0) (\<lambda>name. name) lamp_scene 20) = 0"
proof -
  have a: "list_all (\<lambda>bone. find_channel hundred_tick_clip bone = None) example_bones"
    using hundred_tick_no_channel by (simp add: list_all_iff)
  from unmatched_clip_is_emitted [OF a,
      of nearest_key example_settings lamp_scene reject_all "\<lambda>name c. 0" "\<lambda>name. name" 20]
    lamp_scene_run [of nearest_key]
  show ?thesis
    by (simp add: hundred_tick_nFrames)
      (simp add: hundred_tick_clip_def example_bones_def example_settings_def reject_all_def)
qed

text \<open>
  Claim C2 as stated fails on the resampling path: the only clip of the scene names
  the node \<open>lamp\<close>, which is no bone, and the scene still yields one clip record for it.
\<close>

theorem unmatched_clip_counterexample:
  "map (find_channel hundred_tick_clip) example_bones = [None, None]
   \<and> mAnimations lamp_scene = [hundred_tick_clip]
   \<and> generateAnimationDataV2 nearest_key lamp_scene example_bones example_settings =
     Some [\<lparr>dataName = ''walk_data'',
            frames = replicate 134 \<lparr>posData = [0, 0, 0], rotData = [0, 0, 0]\<rparr>,
            clipName = ''walk_clip'', nFrames = 67, nBones = 2, ticksPerSecond = 20\<rparr>]"
  using hundred_tick_no_channel
  by (simp add: lamp_scene_run) (simp add: example_bones_def lamp_scene_def)

section \<open>Quantization of a rotation\<close>






lemma quantize_rotation_sign:
  "quantize_rotation q =
     those (map short_of_float
       [to_float (qx (sign_normalized q) * short_max),
        to_float (qy (sign_normalized q) * short_max),
        to_float (qz (sign_normalized q) * short_max)])"
  by (auto simp: quantize_rotation_def sign_normalized_def qneg_def split: option.splits)








text \<open>
  The product is rounded before it is truncated: for the float component
  \<open>9732393 / 2 ^ 24\<close> the float product is 19008 and so is the stored short, where the
  exact product truncates to 19007.
\<close>

lemma to_float_rotation_product: "to_float (9732393 / 2 ^ 24 * 32767) = 19008"
proof -
  have f: "\<lfloor>(9732393 / 2 ^ 24 * 32767 :: real) * 2 ^ 9\<rfloor> = 9732095"
    by (simp add: floor_eq_iff)
  have "round_half_even ((9732393 / 2 ^ 24 * 32767 :: real) * 2 ^ 9) = 9732096"
    unfolding round_half_even_def Let_def f by simp
  then show ?thesis using to_float_binade [of 14 "9732393 / 2 ^ 24 * 32767"] by simp
qed

lemma rotation_product_is_rounded:
  "quantize_rotation (Quat 0 (9732393 / 2 ^ 24) 0 0) = Some [19008, 0, 0]
   \<and> trunc_real (9732393 / 2 ^ 24 * short_max) = 19007"
proof -
  let ?q = "Quat 0 (9732393 / 2 ^ 24) 0 0"
  have n: "sign_normalized ?q = ?q" by (simp add: sign_normalized_def)
  have a: "to_float (qx ?q * short_max) = 19008"
    unfolding short_max_def aiQuaternion.sel by (rule to_float_rotation_product)
  have b: "to_float (qy ?q * short_max) = 0" "to_float (qz ?q * short_max) = 0"
    by (simp_all add: to_float_zero)
  have "quantize_rotation ?q = Some [19008, 0, 0]"
    unfolding quantize_rotation_sign n a b by (simp add: short_of_float_def trunc_real_def)
  moreover have "trunc_real (9732393 / 2 ^ 24 * short_max) = 19007"
    by (simp add: trunc_real_def short_max_def floor_eq_iff)
  ultimately show ?thesis by simp
qed

section \<open>The correction of root bones\<close>

lemma sample_bone_child:
  "GetParent bone \<noteq> None \<Longrightarrow>
   sample_bone Interpolate animation settings bone nodeAnim frame =
   evaluate_channel Interpolate animation (DisplayListSettings.mTicksPerSecond settings) nodeAnim frame"
  by (cases "GetParent bone") (simp_all add: sample_bone_def evaluate_channel_def Let_def)

lemma sample_bone_root:
  "GetParent bone = None \<Longrightarrow>
   sample_bone Interpolate animation settings bone nodeAnim frame =
   map_option
     (\<lambda>(origin, rotation).
        (vscale (Rotate (mRotateModel settings) origin) (mModelScale settings),
         qmul (mRotateModel settings) rotation))
     (evaluate_channel Interpolate animation (DisplayListSettings.mTicksPerSecond settings) nodeAnim frame)"
  by (auto simp: sample_bone_def evaluate_channel_def Let_def split: Option.bind_splits)

text \<open>
  The product with the fixed-point scale is rounded to \<open>float\<close>: for the float
  coordinate \<open>11744051 / 2 ^ 24\<close> (the float nearest to 0.7) and the scale 10 the
  stored coordinate is 7, where the exact product truncates to 6.
\<close>

lemma to_float_fixed_point_product: "to_float (11744051 / 2 ^ 24 * 10) = 7"
proof -
  have f: "\<lfloor>(11744051 / 2 ^ 24 * 10 :: real) * 2 ^ 21\<rfloor> = 14680063"
    by (simp add: floor_eq_iff)
  have "round_half_even ((11744051 / 2 ^ 24 * 10 :: real) * 2 ^ 21) = 14680064"
    unfolding round_half_even_def Let_def f by simp
  then show ?thesis using to_float_binade [of 2 "11744051 / 2 ^ 24 * 10"] by simp
qed

lemma fixed_point_product_is_rounded:
  "vscale (Vec3 (11744051 / 2 ^ 24) 0 0) 10 = Vec3 7 0 0
   \<and> quantize_position (vscale (Vec3 (11744051 / 2 ^ 24) 0 0) 10) = Some [7, 0, 0]
   \<and> trunc_real (11744051 / 2 ^ 24 * 10) = 6"
proof -
  have v: "vscale (Vec3 (11744051 / 2 ^ 24) 0 0) 10 = Vec3 7 0 0"
    by (simp only: vscale.simps to_float_fixed_point_product) (simp add: to_float_zero)
  have "quantize_position (Vec3 7 0 0) = Some [7, 0, 0]"
    by (simp add: quantize_position_def short_of_float_def trunc_real_def)
  moreover have "trunc_real (11744051 / 2 ^ 24 * 10) = 6"
    by (simp add: trunc_real_def floor_eq_iff)
  ultimately show ?thesis unfolding v by simp
qed

lemma two_bone_run:
  "populate_allFrameData nearest_key two_bone_clip example_bones example_settings 1 =
     Some [[\<lparr>position = Vec3 512 (- 1024) (- 1536), rotation = Quat 0 1 0 0\<rparr>,
            \<lparr>position = Vec3 1024 1280 1536, rotation = Quat 0 0 1 0\<rparr>]]"
  by (simp add: populate_allFrameData_def init_allFrameData_def populate_bone_def
      populate_channel_def sample_bone_def store_frame_def find_channel_def at_index_def
      evaluateVectorAt_def evaluateQuaternionAt_def Rotate_def
      two_bone_clip_def example_bones_def example_settings_def FrameData_default_def
      upt_rec Let_def to_double_zero to_double_one to_double_numeral
      to_float_zero to_float_one to_float_neg_one to_float_numeral to_float_neg_numeral)

lemma two_bone_other_run:
  "populate_allFrameData nearest_key two_bone_clip example_bones other_settings 1 =
     Some [[\<lparr>position = Vec3 768 1536 2304, rotation = Quat 1 0 0 0\<rparr>,
            \<lparr>position = Vec3 1024 1280 1536, rotation = Quat 0 0 1 0\<rparr>]]"
  by (simp add: populate_allFrameData_def init_allFrameData_def populate_bone_def
      populate_channel_def sample_bone_def store_frame_def find_channel_def at_index_def
      evaluateVectorAt_def evaluateQuaternionAt_def Rotate_def
      two_bone_clip_def example_bones_def other_settings_def FrameData_default_def
      upt_rec Let_def to_double_zero to_double_one to_double_numeral
      to_float_zero to_float_one to_float_neg_one to_float_numeral to_float_neg_numeral)


text \<open>
  Claim C4. Take two resampling runs of one clip whose settings differ only in the
  model scale and the root rotation. For a bone with a parent the two frame tables
  agree at every frame, and the sampled position and rotation are the evaluated ones
  in both runs: neither setting enters. For a bone without a parent the evaluated
  position is rotated by the root rotation and then scaled by the model scale, and the
  rotation is the product of the root rotation and the evaluated rotation, in this
  order; the stored position is that position times the fixed-point scale.
\<close>

theorem root_bone_only_correction:
  assumes "populate_allFrameData Interpolate animation bones settings1 count = Some A1"
    and "populate_allFrameData Interpolate animation bones settings2 count = Some A2"
    and "DisplayListSettings.mTicksPerSecond settings2 = DisplayListSettings.mTicksPerSecond settings1"
    and "mFixedPointScale settings2 = mFixedPointScale settings1"
    and "b < length bones" and "f < nat count"
  shows "(GetParent (bones ! b) \<noteq> None \<longrightarrow> A1 ! f ! b = A2 ! f ! b)
       \<and> (\<forall>nodeAnim. find_channel animation (bones ! b) = Some nodeAnim \<longrightarrow>
            (\<exists>origin rotation.
               evaluate_channel Interpolate animation
                 (DisplayListSettings.mTicksPerSecond settings1) nodeAnim f = Some (origin, rotation)
               \<and> (GetParent (bones ! b) \<noteq> None \<longrightarrow>
                    sample_bone Interpolate animation settings1 (bones ! b) nodeAnim f
                      = Some (origin, rotation)
                    \<and> sample_bone Interpolate animation settings2 (bones ! b) nodeAnim f
                      = Some (origin, rotation)
                    \<and> A1 ! f ! b =
                       \<lparr>position = vscale origin (mFixedPointScale settings1), rotation = rotation\<rparr>)
               \<and> (GetParent (bones ! b) = None \<longrightarrow>
                    sample_bone Interpolate animation settings1 (bones ! b) nodeAnim f
                      = Some (vscale (Rotate (mRotateModel settings1) origin) (mModelScale settings1),
                              qmul (mRotateModel settings1) rotation)
                    \<and> A1 ! f ! b =
                       \<lparr>position = vscale (vscale (Rotate (mRotateModel settings1) origin)
                                               (mModelScale settings1))
                                      (mFixedPointScale settings1),
                        rotation = qmul (mRotateModel settings1) rotation\<rparr>)))"
proof -
  let ?bone = "bones ! b"
  note r1 = populate_allFrameData_result [OF assms(1)]
  note r2 = populate_allFrameData_result [OF assms(2)]
  have e1: "bone_frame Interpolate animation settings1 ?bone f = Some (A1 ! f ! b)"
    using r1 assms(5,6) by simp
  have e2: "bone_frame Interpolate animation settings2 ?bone f = Some (A2 ! f ! b)"
    using r2 assms(5,6) by simp
  have child: "GetParent ?bone \<noteq> None \<longrightarrow> A1 ! f ! b = A2 ! f ! b"
  proof
    assume p: "GetParent ?bone \<noteq> None"
    have "bone_frame Interpolate animation settings1 ?bone f
        = bone_frame Interpolate animation settings2 ?bone f"
      by (simp add: bone_frame_def channel_frame_def sample_bone_child [OF p] assms(3,4)
          split: option.splits)
    then show "A1 ! f ! b = A2 ! f ! b" using e1 e2 by simp
  qed
  have chan: "\<forall>nodeAnim. find_channel animation ?bone = Some nodeAnim \<longrightarrow>
            (\<exists>origin rotation.
               evaluate_channel Interpolate animation
                 (DisplayListSettings.mTicksPerSecond settings1) nodeAnim f = Some (origin, rotation)
               \<and> (GetParent ?bone \<noteq> None \<longrightarrow>
                    sample_bone Interpolate animation settings1 ?bone nodeAnim f
                      = Some (origin, rotation)
                    \<and> sample_bone Interpolate animation settings2 ?bone nodeAnim f
                      = Some (origin, rotation)
                    \<and> A1 ! f ! b =
                       \<lparr>position = vscale origin (mFixedPointScale settings1), rotation = rotation\<rparr>)
               \<and> (GetParent ?bone = None \<longrightarrow>
                    sample_bone Interpolate animation settings1 ?bone nodeAnim f
                      = Some (vscale (Rotate (mRotateModel settings1) origin) (mModelScale settings1),
                              qmul (mRotateModel settings1) rotation)
                    \<and> A1 ! f ! b =
                       \<lparr>position = vscale (vscale (Rotate (mRotateModel settings1) origin)
                                               (mModelScale settings1))
                                      (mFixedPointScale settings1),
                        rotation = qmul (mRotateModel settings1) rotation\<rparr>))"
  proof (intro allI impI)
    fix nodeAnim assume c: "find_channel animation ?bone = Some nodeAnim"
    have cf: "channel_frame Interpolate animation settings1 ?bone nodeAnim f = Some (A1 ! f ! b)"
      using e1 c by (simp add: bone_frame_def)
    then obtain so sr where s: "sample_bone Interpolate animation settings1 ?bone nodeAnim f = Some (so, sr)"
      and A: "A1 ! f ! b = \<lparr>position = vscale so (mFixedPointScale settings1), rotation = sr\<rparr>"
      by (auto simp: channel_frame_def)
    show "\<exists>origin rotation.
               evaluate_channel Interpolate animation
                 (DisplayListSettings.mTicksPerSecond settings1) nodeAnim f = Some (origin, rotation)
               \<and> (GetParent ?bone \<noteq> None \<longrightarrow>
                    sample_bone Interpolate animation settings1 ?bone nodeAnim f
                      = Some (origin, rotation)
                    \<and> sample_bone Interpolate animation settings2 ?bone nodeAnim f
                      = Some (origin, rotation)
                    \<and> A1 ! f ! b =
                       \<lparr>position = vscale origin (mFixedPointScale settings1), rotation = rotation\<rparr>)
               \<and> (GetParent ?bone = None \<longrightarrow>
                    sample_bone Interpolate animation settings1 ?bone nodeAnim f
                      = Some (vscale (Rotate (mRotateModel settings1) origin) (mModelScale settings1),
                              qmul (mRotateModel settings1) rotation)
                    \<and> A1 ! f ! b =
                       \<lparr>position = vscale (vscale (Rotate (mRotateModel settings1) origin)
                                               (mModelScale settings1))
                                      (mFixedPointScale settings1),
                        rotation = qmul (mRotateModel settings1) rotation\<rparr>)"
    proof (cases "GetParent ?bone")
      case None
      from s obtain origin rotation where
        e: "evaluate_channel Interpolate animation
              (DisplayListSettings.mTicksPerSecond settings1) nodeAnim f = Some (origin, rotation)"
        and so: "so = vscale (Rotate (mRotateModel settings1) origin) (mModelScale settings1)"
        and sr: "sr = qmul (mRotateModel settings1) rotation"
        by (auto simp: sample_bone_root [OF None])
      show ?thesis using e s A None so sr by auto
    next
      case (Some up)
      then have p: "GetParent ?bone \<noteq> None" by simp
      have e: "evaluate_channel Interpolate animation
              (DisplayListSettings.mTicksPerSecond settings1) nodeAnim f = Some (so, sr)"
        using s by (simp add: sample_bone_child [OF p])
      have "sample_bone Interpolate animation settings2 ?bone nodeAnim f = Some (so, sr)"
        using e by (simp add: sample_bone_child [OF p] assms(3))
      then show ?thesis using e s A Some by auto
    qed
  qed
  show ?thesis using child chan by blast
qed

theorem root_bone_only_correction_witness:
  "[[\<lparr>position = Vec3 512 (- 1024) (- 1536), rotation = Quat 0 1 0 0\<rparr>,
     \<lparr>position = Vec3 1024 1280 1536, rotation = Quat 0 0 1 0\<rparr>]] ! 0 ! 1
   = [[\<lparr>position = Vec3 768 1536 2304, rotation = Quat 1 0 0 0\<rparr>,
       \<lparr>position = Vec3 1024 1280 1536, rotation = Quat 0 0 1 0\<rparr>]] ! 0 ! 1
   \<and> populate_allFrameData nearest_key two_bone_clip example_bones example_settings 1 =
     Some [[\<lparr>position = Vec3 512 (- 1024) (- 1536), rotation = Quat 0 1 0 0\<rparr>,
            \<lparr>position = Vec3 1024 1280 1536, rotation = Quat 0 0 1 0\<rparr>]]
   \<and> populate_allFrameData nearest_key two_bone_clip example_bones other_settings 1 =
     Some [[\<lparr>position = Vec3 768 1536 2304, rotation = Quat 1 0 0 0\<rparr>,
            \<lparr>position = Vec3 1024 1280 1536, rotation = Quat 0 0 1 0\<rparr>]]"
proof -
  have t: "DisplayListSettings.mTicksPerSecond other_settings
             = DisplayListSettings.mTicksPerSecond example_settings"
    and s: "mFixedPointScale other_settings = mFixedPointScale example_settings"
    by (simp_all add: other_settings_def example_settings_def)
  have b: "1 < length example_bones" by (simp add: example_bones_def)
  have f: "0 < nat 1" by simp
  have p: "GetParent (example_bones ! 1) \<noteq> None" by (simp add: example_bones_def)
  from root_bone_only_correction [OF two_bone_run two_bone_other_run t s b f] p
  show ?thesis by (simp add: two_bone_run two_bone_other_run)
qed


section \<open>The traversal of the node tree\<close>

lemma node_at_Node:
  "node_at (Node name t ms cs) q \<noteq> None \<longleftrightarrow>
     q = [] \<or> (\<exists>k r. q = k # r \<and> k < length cs \<and> node_at (cs ! k) r \<noteq> None)"
  by (cases q) auto

lemma forEach_sound:
  "\<forall>x\<in>set (forEachNode p n). \<exists>q. x = p @ q \<and> node_at n q \<noteq> None"
  "\<forall>x\<in>set (forEachChild p i cs).
      \<exists>j q. j < length cs \<and> x = p @ (i + j) # q \<and> node_at (cs ! j) q \<noteq> None"
proof (induction p n and p i cs rule: forEachNode_forEachChild.induct)
  case (1 p name t ms cs)
  show ?case
  proof
    fix x assume "x \<in> set (forEachNode p (Node name t ms cs))"
    then consider "x = p" | "x \<in> set (forEachChild p 0 cs)" by auto
    then show "\<exists>q. x = p @ q \<and> node_at (Node name t ms cs) q \<noteq> None"
    proof cases
      case 1
      then have "x = p @ [] \<and> node_at (Node name t ms cs) [] \<noteq> None" by simp
      then show ?thesis by blast
    next
      case 2
      with 1 obtain j q where "j < length cs" "x = p @ (0 + j) # q" "node_at (cs ! j) q \<noteq> None"
        by blast
      then have "x = p @ (j # q) \<and> node_at (Node name t ms cs) (j # q) \<noteq> None" by simp
      then show ?thesis by blast
    qed
  qed
next
  case (2 p i)
  show ?case by simp
next
  case (3 p i c cs)
  show ?case
  proof
    fix x assume "x \<in> set (forEachChild p i (c # cs))"
    then consider "x \<in> set (forEachNode (p @ [i]) c)" | "x \<in> set (forEachChild p (Suc i) cs)"
      by auto
    then show "\<exists>j q. j < length (c # cs) \<and> x = p @ (i + j) # q \<and> node_at ((c # cs) ! j) q \<noteq> None"
    proof cases
      case 1
      with 3(1) obtain q where "x = (p @ [i]) @ q" "node_at c q \<noteq> None" by blast
      then have "0 < length (c # cs) \<and> x = p @ (i + 0) # q \<and> node_at ((c # cs) ! 0) q \<noteq> None"
        by simp
      then show ?thesis by blast
    next
      case 2
      with 3(2) obtain j q where "j < length cs" "x = p @ (Suc i + j) # q" "node_at (cs ! j) q \<noteq> None"
        by blast
      then have "Suc j < length (c # cs) \<and> x = p @ (i + Suc j) # q
          \<and> node_at ((c # cs) ! Suc j) q \<noteq> None"
        by simp
      then show ?thesis by blast
    qed
  qed
qed

lemma forEach_complete:
  "\<forall>q. node_at n q \<noteq> None \<longrightarrow> p @ q \<in> set (forEachNode p n)"
  "\<forall>j q. j < length cs \<and> node_at (cs ! j) q \<noteq> None \<longrightarrow>
      p @ (i + j) # q \<in> set (forEachChild p i cs)"
proof (induction p n and p i cs rule: forEachNode_forEachChild.induct)
  case (1 p name t ms cs)
  show ?case
  proof (intro allI impI)
    fix q assume "node_at (Node name t ms cs) q \<noteq> None"
    then consider "q = []" | k r where "q = k # r" "k < length cs" "node_at (cs ! k) r \<noteq> None"
      unfolding node_at_Node by blast
    then show "p @ q \<in> set (forEachNode p (Node name t ms cs))"
    proof cases
      case 1
      then show ?thesis by simp
    next
      case 2
      then have "p @ (0 + k) # r \<in> set (forEachChild p 0 cs)" using 1 by blast
      then show ?thesis using 2 by simp
    qed
  qed
next
  case (2 p i)
  show ?case by simp
next
  case (3 p i c cs)
  show ?case
  proof (intro allI impI)
    fix j q assume a: "j < length (c # cs) \<and> node_at ((c # cs) ! j) q \<noteq> None"
    show "p @ (i + j) # q \<in> set (forEachChild p i (c # cs))"
    proof (cases j)
      case 0
      then have "(p @ [i]) @ q \<in> set (forEachNode (p @ [i]) c)" using a 3(1) by simp
      then show ?thesis using 0 by simp
    next
      case (Suc k)
      then have "p @ (Suc i + k) # q \<in> set (forEachChild p (Suc i) cs)" using a 3(2) by simp
      then show ?thesis using Suc by simp
    qed
  qed
qed

lemma forEach_distinct:
  "distinct (forEachNode p n)"
  "distinct (forEachChild p i cs)"
proof (induction p n and p i cs rule: forEachNode_forEachChild.induct)
  case (1 p name t ms cs)
  have "p \<notin> set (forEachChild p 0 cs)"
  proof
    assume "p \<in> set (forEachChild p 0 cs)"
    with forEach_sound(2) [of p 0 cs] obtain j q where "p = p @ (0 + j) # q" by blast
    then show False by simp
  qed
  then show ?case using 1 by simp
next
  case (2 p i)
  show ?case by simp
next
  case (3 p i c cs)
  have "set (forEachNode (p @ [i]) c) \<inter> set (forEachChild p (Suc i) cs) = {}"
  proof (rule ccontr)
    assume "set (forEachNode (p @ [i]) c) \<inter> set (forEachChild p (Suc i) cs) \<noteq> {}"
    then obtain x where x: "x \<in> set (forEachNode (p @ [i]) c)" "x \<in> set (forEachChild p (Suc i) cs)"
      by blast
    from x(1) forEach_sound(1) [of "p @ [i]" c] obtain q where q: "x = (p @ [i]) @ q" by blast
    from x(2) forEach_sound(2) [of p "Suc i" cs] obtain j r where r: "x = p @ (Suc i + j) # r"
      by blast
    from q r show False by simp
  qed
  then show ?case using 3 by simp
qed

lemma forEachNode_set: "set (forEachNode [] n) = {q. node_at n q \<noteq> None}"
  using forEach_sound(1) [of "[]" n] forEach_complete(1) [of n "[]"] by auto

lemma node_at_append:
  "node_at n (q @ r) = (case node_at n q of None \<Rightarrow> None | Some m \<Rightarrow> node_at m r)"
  by (induction n q rule: node_at.induct) auto

lemma node_at_take: "node_at n p \<noteq> None \<Longrightarrow> node_at n (take k p) \<noteq> None"
  using node_at_append [of n "take k p" "drop k p"] by (auto split: option.splits)


section \<open>The containers of the hierarchy resolution\<close>

lemma ptr_set_insert_set: "set (ptr_set_insert addr p s) = insert p (set s)"
  by (auto simp: ptr_set_insert_def set_insort_key)

lemma ptr_set_insert_distinct: "distinct s \<Longrightarrow> distinct (ptr_set_insert addr p s)"
  by (simp add: ptr_set_insert_def distinct_insort)

lemma nodeOrder_insert_fresh:
  assumes "x \<notin> set xs"
  shows "nodeOrder_insert x (zip xs [0..<length xs]) = zip (xs @ [x]) [0..<length (xs @ [x])]"
proof -
  have "map fst (zip xs [0..<length xs]) = xs" by simp
  then have "x \<notin> fst ` set (zip xs [0..<length xs])"
    using assms by (metis set_map)
  then have "map_of (zip xs [0..<length xs]) x = None"
    by (simp add: map_of_eq_None_iff)
  then show ?thesis by (simp add: nodeOrder_insert_def)
qed

lemma visit_fold:
  assumes "\<forall>p\<in>set xs. node_at rootNode p \<noteq> None" "distinct xs"
  shows "\<exists>S. for_each (visit_node addr rootNode names) xs ([], [])
               = Some (S, zip xs [0..<length xs])
           \<and> set S = {p \<in> set xs. animation_relevant rootNode names p} \<and> distinct S"
  using assms
proof (induction xs rule: rev_induct)
  case Nil
  then show ?case by simp
next
  case (snoc x xs)
  have pre: "\<forall>p\<in>set xs. node_at rootNode p \<noteq> None" "distinct xs"
    using snoc.prems by simp_all
  from snoc.IH [OF pre] obtain S where S: "for_each (visit_node addr rootNode names) xs ([], [])
               = Some (S, zip xs [0..<length xs])"
      "set S = {p \<in> set xs. animation_relevant rootNode names p}" "distinct S"
    by blast
  have "node_at rootNode x \<noteq> None" and fresh: "x \<notin> set xs"
    using snoc.prems by simp_all
  then obtain n where n: "node_at rootNode x = Some n" by blast
  let ?S' = "if aiNode.mName n \<in> names then ptr_set_insert addr x S else S"
  have step: "visit_node addr rootNode names x (S, zip xs [0..<length xs])
        = Some (?S', zip (xs @ [x]) [0..<length (xs @ [x])])"
    unfolding visit_node_def n using nodeOrder_insert_fresh [OF fresh] by simp
  have run: "for_each (visit_node addr rootNode names) (xs @ [x]) ([], [])
        = Some (?S', zip (xs @ [x]) [0..<length (xs @ [x])])"
    unfolding for_each_append S(1) using step by simp
  have rel: "animation_relevant rootNode names x \<longleftrightarrow> aiNode.mName n \<in> names"
    by (simp add: animation_relevant_def n)
  have "set ?S' = {p \<in> set (xs @ [x]). animation_relevant rootNode names p}"
  proof (cases "aiNode.mName n \<in> names")
    case True
    then have "set ?S' = insert x (set S)" by (simp add: ptr_set_insert_set)
    also have "\<dots> = {p \<in> set (xs @ [x]). animation_relevant rootNode names p}"
      unfolding S(2) using True rel by auto
    finally show ?thesis .
  next
    case False
    then have "set ?S' = set S" by simp
    also have "\<dots> = {p \<in> set (xs @ [x]). animation_relevant rootNode names p}"
      unfolding S(2) using False rel by auto
    finally show ?thesis .
  qed
  moreover have "distinct ?S'" using S(3) by (simp add: ptr_set_insert_distinct)
  ultimately show ?case using run by blast
qed

lemma nodeOrder_lookup_nth:
  assumes "distinct xs" "i < length xs"
  shows "nodeOrder_lookup (zip xs [0..<length xs]) (xs ! i) = i"
  using map_of_zip_nth [of xs "[0..<length xs]" i] assms by (simp add: nodeOrder_lookup_def)

lemma nodeOrder_lookup_map:
  assumes "distinct xs"
  shows "map (nodeOrder_lookup (zip xs [0..<length xs])) xs = [0..<length xs]"
  using assms by (intro nth_equalityI) (simp_all add: nodeOrder_lookup_nth)

lemma nodeOrder_lookup_inj:
  assumes "distinct xs"
  shows "inj_on (nodeOrder_lookup (zip xs [0..<length xs])) (set xs)"
proof (rule inj_onI)
  fix a b assume "a \<in> set xs" "b \<in> set xs"
    and e: "nodeOrder_lookup (zip xs [0..<length xs]) a = nodeOrder_lookup (zip xs [0..<length xs]) b"
  then obtain i j where "i < length xs" "a = xs ! i" "j < length xs" "b = xs ! j"
    by (auto simp: in_set_conv_nth)
  then show "a = b" using e assms by (simp add: nodeOrder_lookup_nth)
qed

lemma sorted_subsequence_unique:
  fixes idx :: "'a \<Rightarrow> nat"
  assumes "sorted (map idx xs)" "sorted (map idx ys)" "distinct xs" "distinct ys"
    and "set xs = set ys" "inj_on idx (set ys)"
  shows "xs = ys"
proof -
  have "distinct (map idx xs)" "distinct (map idx ys)"
    using assms(3-6) by (simp_all add: distinct_map)
  moreover have "set (map idx xs) = set (map idx ys)" using assms(5) by simp
  ultimately have "map idx xs = map idx ys"
    using assms(1,2) by (intro sorted_distinct_set_unique) simp_all
  then show ?thesis
    using assms(5,6) by (intro inj_on_map_eq_map [THEN iffD1, of idx xs ys]) simp_all
qed

lemma those_map_intro:
  "length ys = length xs \<Longrightarrow> \<forall>i<length xs. f (xs ! i) = Some (ys ! i) \<Longrightarrow>
   those (map f xs) = Some ys"
proof (induction xs arbitrary: ys)
  case Nil
  then show ?case by simp
next
  case (Cons x xs)
  then obtain y zs where ys: "ys = y # zs" by (cases ys) auto
  have "f x = Some y" using Cons.prems(2) ys by auto
  moreover have "those (map f xs) = Some zs"
  proof (rule Cons.IH)
    show "length zs = length xs" using Cons.prems(1) ys by simp
    show "\<forall>i<length xs. f (xs ! i) = Some (zs ! i)"
      using Cons.prems(2) ys by auto
  qed
  ultimately show ?case using ys by simp
qed

lemma walk_up_root: "walk_up rootNode S [] rel = Some ([], rel)"
  by (subst walk_up.simps) (simp add: mParent_def)

lemma walk_up_stop:
  "p \<noteq> [] \<Longrightarrow> butlast p \<in> set S \<Longrightarrow> walk_up rootNode S p rel = Some (p, rel)"
  by (subst walk_up.simps) (simp add: mParent_def)

lemma walk_up_step:
  "p \<noteq> [] \<Longrightarrow> butlast p \<notin> set S \<Longrightarrow> node_at rootNode (butlast p) = Some n \<Longrightarrow>
   walk_up rootNode S p rel = walk_up rootNode S (butlast p) (mat_mul (mTransformation n) rel)"
  by (subst walk_up.simps) (simp add: mParent_def)

lemma node_at_butlast: "node_at n p \<noteq> None \<Longrightarrow> node_at n (butlast p) \<noteq> None"
  using node_at_take [of n p "length p - 1"] by (simp add: butlast_conv_take)

lemma walk_up_defined:
  "node_at rootNode p \<noteq> None \<Longrightarrow> \<exists>c r. walk_up rootNode S p rel = Some (c, r)"
proof (induction "length p" arbitrary: p rel)
  case 0
  then show ?case by (simp add: walk_up_root)
next
  case (Suc k)
  then have ne: "p \<noteq> []" by auto
  show ?case
  proof (cases "butlast p \<in> set S")
    case True
    then show ?thesis using ne by (simp add: walk_up_stop)
  next
    case False
    from node_at_butlast [OF Suc.prems] obtain n where n: "node_at rootNode (butlast p) = Some n"
      by auto
    have "\<exists>c r. walk_up rootNode S (butlast p) (mat_mul (mTransformation n) rel) = Some (c, r)"
      using Suc.hyps(2) n by (intro Suc.hyps(1)) simp_all
    then show ?thesis using walk_up_step [OF ne False n] by simp
  qed
qed

lemma walk_up_set:
  "set S = set S' \<Longrightarrow> walk_up rootNode S p rel = walk_up rootNode S' p rel"
proof (induction "length p" arbitrary: p rel)
  case 0
  then show ?case by (simp add: walk_up_root)
next
  case (Suc k)
  then have ne: "p \<noteq> []" by auto
  have "walk_up rootNode S p rel =
      (if butlast p \<in> set S then Some (p, rel)
       else case node_at rootNode (butlast p) of None \<Rightarrow> None
            | Some n \<Rightarrow> walk_up rootNode S (butlast p) (mat_mul (mTransformation n) rel))"
    using ne by (subst walk_up.simps) (simp add: mParent_def split: option.splits)
  moreover have "walk_up rootNode S' p rel =
      (if butlast p \<in> set S' then Some (p, rel)
       else case node_at rootNode (butlast p) of None \<Rightarrow> None
            | Some n \<Rightarrow> walk_up rootNode S' (butlast p) (mat_mul (mTransformation n) rel))"
    using ne by (subst walk_up.simps) (simp add: mParent_def split: option.splits)
  moreover have "\<And>r. walk_up rootNode S (butlast p) r = walk_up rootNode S' (butlast p) r"
    using Suc.hyps(2) Suc.prems by (intro Suc.hyps(1)) simp_all
  ultimately show ?case using Suc.prems by (simp split: option.splits)
qed

lemma node_info_set:
  "set S = set S' \<Longrightarrow> node_info rootNode S modelScale p = node_info rootNode S' modelScale p"
  by (simp add: node_info_def walk_up_set [of S S'])

lemma node_info_node: "node_info rootNode S modelScale p = Some a \<Longrightarrow> node a = p"
  by (auto simp: node_info_def bind_eq_Some_conv)

lemma node_info_defined:
  "node_at rootNode p \<noteq> None \<Longrightarrow> \<exists>a. node_info rootNode S modelScale p = Some a"
  using walk_up_defined [of rootNode p S aiMatrix4x4_default] by (auto simp: node_info_def)


section \<open>The resolved hierarchy\<close>

lemma relevant_filter_set:
  "set (filter (animation_relevant rootNode names) (forEachNode [] rootNode))
     = {p. animation_relevant rootNode names p}"
  by (auto simp: forEachNode_set animation_relevant_def split: option.splits)

lemma findNodes_unfold:
  assumes "findNodesForWithAnimation addr scene usedNodes modelScale = Some R"
    and "animatedNodeNames scene usedNodes = Some names"
  shows "\<exists>S infos.
           set S = {p. animation_relevant (mRootNode scene) names p} \<and> distinct S
         \<and> those (map (node_info (mRootNode scene) S modelScale) S) = Some infos
         \<and> R = sort_key (\<lambda>a. nodeOrder_lookup
                   (zip (forEachNode [] (mRootNode scene))
                        [0..<length (forEachNode [] (mRootNode scene))]) (node a)) infos"
proof -
  let ?V = "forEachNode [] (mRootNode scene)"
  have valid: "\<forall>p\<in>set ?V. node_at (mRootNode scene) p \<noteq> None"
    by (simp add: forEachNode_set)
  from visit_fold [OF valid forEach_distinct(1), of addr names] obtain S where
    S: "for_each (visit_node addr (mRootNode scene) names) ?V ([], [])
          = Some (S, zip ?V [0..<length ?V])"
       "set S = {p \<in> set ?V. animation_relevant (mRootNode scene) names p}" "distinct S"
    by blast
  have set: "set S = {p. animation_relevant (mRootNode scene) names p}"
    using S(2) relevant_filter_set [of "mRootNode scene" names] by auto
  have "those (map (node_info (mRootNode scene) S modelScale) S) \<bind>
          (\<lambda>infos. Some (sort_key (\<lambda>a. nodeOrder_lookup (zip ?V [0..<length ?V]) (node a)) infos))
        = Some R"
    using assms(1) by (simp add: findNodesForWithAnimation_def assms(2) S(1))
  then obtain infos where
    "those (map (node_info (mRootNode scene) S modelScale) S) = Some infos"
    "R = sort_key (\<lambda>a. nodeOrder_lookup (zip ?V [0..<length ?V]) (node a)) infos"
    by (auto simp: bind_eq_Some_conv)
  then show ?thesis using set S(3) by blast
qed

lemma findNodes_defined:
  assumes "animatedNodeNames scene usedNodes = Some names"
  shows "\<exists>R. findNodesForWithAnimation addr scene usedNodes modelScale = Some R"
proof -
  let ?V = "forEachNode [] (mRootNode scene)"
  have valid: "\<forall>p\<in>set ?V. node_at (mRootNode scene) p \<noteq> None"
    by (simp add: forEachNode_set)
  from visit_fold [OF valid forEach_distinct(1), of addr names] obtain S where
    S: "for_each (visit_node addr (mRootNode scene) names) ?V ([], [])
          = Some (S, zip ?V [0..<length ?V])"
       "set S = {p \<in> set ?V. animation_relevant (mRootNode scene) names p}"
    by blast
  have "\<forall>p\<in>set S. \<exists>a. node_info (mRootNode scene) S modelScale p = Some a"
    using S(2) valid by (auto intro: node_info_defined)
  from those_map_defined [OF this] obtain infos where
    "those (map (node_info (mRootNode scene) S modelScale) S) = Some infos" by blast
  then show ?thesis
    by (simp add: findNodesForWithAnimation_def assms S(1))
qed

lemma findNodes_characterised:
  assumes "findNodesForWithAnimation addr scene usedNodes modelScale = Some R"
    and "animatedNodeNames scene usedNodes = Some names"
  shows "map node R = filter (animation_relevant (mRootNode scene) names)
                        (forEachNode [] (mRootNode scene))
       \<and> those (map (node_info (mRootNode scene)
                       (filter (animation_relevant (mRootNode scene) names)
                          (forEachNode [] (mRootNode scene))) modelScale)
                  (filter (animation_relevant (mRootNode scene) names)
                     (forEachNode [] (mRootNode scene)))) = Some R"
proof -
  let ?V = "forEachNode [] (mRootNode scene)"
  let ?F = "filter (animation_relevant (mRootNode scene) names) ?V"
  let ?idx = "nodeOrder_lookup (zip ?V [0..<length ?V])"
  from findNodes_unfold [OF assms] obtain S infos where
    set: "set S = {p. animation_relevant (mRootNode scene) names p}" and dS: "distinct S" and
    infos: "those (map (node_info (mRootNode scene) S modelScale) S) = Some infos" and
    R: "R = sort_key (\<lambda>a. ?idx (node a)) infos"
    by blast
  note t = those_map_Some [OF infos]
  have nodes: "map node infos = S"
  proof (rule nth_equalityI)
    show "length (map node infos) = length S" using t by simp
    fix i assume "i < length (map node infos)"
    then have "node_info (mRootNode scene) S modelScale (S ! i) = Some (infos ! i)"
      and "i < length infos" using t by simp_all
    then show "map node infos ! i = S ! i" using node_info_node by fastforce
  qed
  have dV: "distinct ?V" by (rule forEach_distinct)
  have setF: "set ?F = set S" using set relevant_filter_set [of "mRootNode scene" names] by simp
  have dn: "distinct (map node infos)" using nodes dS by simp
  then have dinfos: "distinct infos" and inj: "inj_on node (set infos)"
    by (simp_all add: distinct_map)
  have dR: "distinct (map node R)"
    using dinfos inj by (simp add: R distinct_map)
  have setR: "set (map node R) = set S"
    using nodes by (metis R set_map set_sort)
  have sR: "sorted (map ?idx (map node R))"
    using sorted_sort_key [of "\<lambda>a. ?idx (node a)" infos] by (simp add: R comp_def)
  have "sorted (map ?idx ?V)" by (simp add: nodeOrder_lookup_map [OF dV])
  then have sF: "sorted (map ?idx ?F)" by (rule sorted_filter)
  have injF: "inj_on ?idx (set ?F)"
    using nodeOrder_lookup_inj [OF dV] by (rule inj_on_subset) auto
  have eq: "map node R = ?F"
    using sR sF dR _ _ injF
  proof (rule sorted_subsequence_unique)
    show "distinct ?F" using dV by simp
    show "set (map node R) = set ?F" using setR setF by simp
  qed
  have each: "\<forall>i<length ?F. node_info (mRootNode scene) ?F modelScale (?F ! i) = Some (R ! i)"
  proof (intro allI impI)
    fix i assume i: "i < length ?F"
    then have iR: "i < length R" using eq by (metis length_map)
    then have "R ! i \<in> set infos" using R by (metis nth_mem set_sort)
    then obtain j where j: "j < length infos" "R ! i = infos ! j"
      by (auto simp: in_set_conv_nth)
    then have "node_info (mRootNode scene) S modelScale (S ! j) = Some (R ! i)"
      using t by simp
    moreover have "S ! j = node (R ! i)" using nodes j by (metis nth_map)
    moreover have "node (R ! i) = ?F ! i" using eq iR by (metis nth_map)
    ultimately have "node_info (mRootNode scene) S modelScale (?F ! i) = Some (R ! i)" by simp
    then show "node_info (mRootNode scene) ?F modelScale (?F ! i) = Some (R ! i)"
      using node_info_set [of ?F S] setF by simp
  qed
  have "length R = length ?F" using eq by (metis length_map)
  from those_map_intro [OF this each] eq show ?thesis by simp
qed


section \<open>Example scenes resolved, and the walk to the root\<close>

lemma chain_names: "animatedNodeNames chain_scene [] = Some {''hip'', ''knee''}"
  by (simp add: animatedNodeNames_def chain_scene_def two_bone_clip_def) 


lemma chain_visit: "forEachNode [] chain_tree = [[], [0], [0, 0], [1]]"
  by (simp add: chain_tree_def)

lemma chain_run_root_first:
  "findNodesForWithAnimation root_first chain_scene [] 2 =
     Some [\<lparr>node = [], parent = None, relativeTransform = uniform_scale_matrix 2\<rparr>,
           \<lparr>node = [0, 0], parent = Some [], relativeTransform = translation_matrix 0 2 0\<rparr>]"
  by (simp add: findNodesForWithAnimation_def chain_names)
     (simp add: chain_scene_def chain_visit visit_node_def chain_tree_def ptr_set_insert_def
        nodeOrder_insert_def root_first_def node_info_def walk_up.simps mParent_def
        nodeOrder_lookup_def row_times_def translation_matrix_def uniform_scale_matrix_def
        aiMatrix4x4_default_def)

lemma chain_run_deepest_first:
  "findNodesForWithAnimation deepest_first chain_scene [] 2 =
     Some [\<lparr>node = [], parent = None, relativeTransform = uniform_scale_matrix 2\<rparr>,
           \<lparr>node = [0, 0], parent = Some [], relativeTransform = translation_matrix 0 2 0\<rparr>]"
  by (simp add: findNodesForWithAnimation_def chain_names)
     (simp add: chain_scene_def chain_visit visit_node_def chain_tree_def ptr_set_insert_def
        nodeOrder_insert_def deepest_first_def node_info_def walk_up.simps mParent_def
        nodeOrder_lookup_def row_times_def translation_matrix_def uniform_scale_matrix_def
        aiMatrix4x4_default_def)






section \<open>Relative transforms and the order of the result\<close>



text \<open>
  Claim C6. The nodes of the resulting list are the animation-relevant nodes in the
  order in which the depth-first traversal visits them, and the whole list is the same
  for every assignment of addresses to the nodes, that is, for every iteration order
  of the pointer set.
\<close>

theorem resolved_order_is_visitation_order:
  assumes "findNodesForWithAnimation addr scene usedNodes modelScale = Some R"
    and "animatedNodeNames scene usedNodes = Some names"
  shows "map node R = filter (animation_relevant (mRootNode scene) names)
                        (forEachNode [] (mRootNode scene))
       \<and> (\<forall>addr'. findNodesForWithAnimation addr' scene usedNodes modelScale = Some R)"
proof -
  note c = findNodes_characterised [OF assms]
  have "\<forall>addr'. findNodesForWithAnimation addr' scene usedNodes modelScale = Some R"
  proof
    fix addr'
    from findNodes_defined [OF assms(2), of addr' modelScale] obtain R' where
      R': "findNodesForWithAnimation addr' scene usedNodes modelScale = Some R'" by blast
    from findNodes_characterised [OF R' assms(2)] c have "R' = R" by simp
    then show "findNodesForWithAnimation addr' scene usedNodes modelScale = Some R" using R' by simp
  qed
  then show ?thesis using c by simp
qed


lemma chain_nodes:
  "node_at chain_tree [0] = Some (Node ''helper'' (translation_matrix 0 2 0) []
          [Node ''knee'' (translation_matrix 0 0 3) [] []])"
  "node_at chain_tree [0, 0] = Some (Node ''knee'' (translation_matrix 0 0 3) [] [])"
  "node_at chain_tree [] = Some chain_tree"
  by (simp_all add: chain_tree_def)


lemma chain_ancestor_product:
  "mat_mul (uniform_scale_matrix 2) (ancestor_product chain_tree [0, 0])
     = Mat4 (Vec4 2 0 0 2) (Vec4 0 2 0 4) (Vec4 0 0 2 0) (Vec4 0 0 0 1)"
proof -
  have "[0..<length [0, 0 :: nat]] = [0, 1]" by (simp add: upt_rec)
  then show ?thesis
    by (simp add: ancestor_product_def local_transform_def chain_nodes)
       (simp add: chain_tree_def translation_matrix_def uniform_scale_matrix_def
          aiMatrix4x4_default_def row_times_def)
qed


theorem resolved_order_is_visitation_order_witness:
  "map node [\<lparr>node = [], parent = None, relativeTransform = uniform_scale_matrix 2\<rparr>,
             \<lparr>node = [0, 0], parent = Some [], relativeTransform = translation_matrix 0 2 0\<rparr>]
     = filter (animation_relevant chain_tree {''hip'', ''knee''}) [[], [0], [0, 0], [1]]
   \<and> findNodesForWithAnimation deepest_first chain_scene [] 2 =
     Some [\<lparr>node = [], parent = None, relativeTransform = uniform_scale_matrix 2\<rparr>,
           \<lparr>node = [0, 0], parent = Some [], relativeTransform = translation_matrix 0 2 0\<rparr>]"
  using resolved_order_is_visitation_order [OF chain_run_root_first chain_names]
  by (simp add: chain_scene_def chain_visit)


end
